theory Spec2Isabelle
  imports
    Complex_Main
    "HOL-Library.Word"
    "HOL-Library.Signed_Division"
    "HOL-Library.Multiset"
begin

section \<open>Go values\<close>

text \<open>
  The program is compiled for a 64-bit platform: Go's \<open>int\<close> is 64 bits wide there, as
  \<open>int64\<close> and \<open>time.Duration\<close> (a count of nanoseconds) always are. Addition and
  subtraction wrap around; ordering and division read the bits as two's complement.
\<close>

type_synonym go_int = "64 word"
type_synonym int64 = "64 word"
type_synonym uint64 = "64 word"
type_synonym uint16 = "16 word"
type_synonym Duration = "64 word"

text \<open>Go's \<open>/\<close> on signed integers truncates towards zero and wraps on overflow.\<close>

definition go_div :: "64 word \<Rightarrow> 64 word \<Rightarrow> 64 word" where
  "go_div a b = word_of_int (sint a sdiv sint b)"

text \<open>
  A \<open>float64\<close> is a real number, one of the two infinities or not-a-number. Every
  arithmetic result is rounded as IEEE 754 binary64 rounds it (\<open>round64\<close>): to the
  nearest multiple of the unit in the last place of its binade, 53 significant bits, ties
  to the even significand; the unit stops shrinking at \<open>2^-1074\<close> (subnormal numbers) and
  a result of magnitude \<open>2^1024\<close> or more is an infinity. The sign of zero is not
  modelled.
\<close>

datatype float64 = Finite real | PosInf | NegInf | NaN

definition round_even :: "real \<Rightarrow> int" where
  "round_even y =
     (let f = \<lfloor>y\<rfloor>; d = y - of_int f
      in if d < 1 / 2 then f else if 1 / 2 < d then f + 1
         else if even f then f else f + 1)"

definition round64 :: "real \<Rightarrow> float64" where
  "round64 x =
     (if x = 0 then Finite 0
      else let e = max \<lfloor>log 2 \<bar>x\<bar>\<rfloor> (- 1022);
               ulp = 2 powr of_int (e - 52);
               y = ulp * of_int (round_even (x / ulp))
           in if 2 ^ 1024 \<le> \<bar>y\<bar> then (if 0 < x then PosInf else NegInf) else Finite y)"

fun fadd :: "float64 \<Rightarrow> float64 \<Rightarrow> float64" where
  "fadd (Finite a) (Finite b) = round64 (a + b)"
| "fadd NaN _ = NaN"
| "fadd _ NaN = NaN"
| "fadd PosInf NegInf = NaN"
| "fadd NegInf PosInf = NaN"
| "fadd PosInf _ = PosInf"
| "fadd _ PosInf = PosInf"
| "fadd NegInf _ = NegInf"
| "fadd _ NegInf = NegInf"

fun fdiv :: "float64 \<Rightarrow> float64 \<Rightarrow> float64" where
  "fdiv (Finite a) (Finite b) =
     (if b = 0 then (if a = 0 then NaN else if 0 < a then PosInf else NegInf)
      else round64 (a / b))"
| "fdiv (Finite a) PosInf = Finite 0"
| "fdiv (Finite a) NegInf = Finite 0"
| "fdiv PosInf (Finite b) = (if 0 \<le> b then PosInf else NegInf)"
| "fdiv NegInf (Finite b) = (if 0 \<le> b then NegInf else PosInf)"
| "fdiv _ _ = NaN"

fun fgt :: "float64 \<Rightarrow> float64 \<Rightarrow> bool" where
  "fgt (Finite a) (Finite b) = (b < a)"
| "fgt PosInf (Finite b) = True"
| "fgt PosInf NegInf = True"
| "fgt (Finite a) NegInf = True"
| "fgt _ _ = False"

text \<open>The conversion \<open>float64(n)\<close> of an \<open>int64\<close>.\<close>

definition float64_of_int64 :: "int64 \<Rightarrow> float64" where
  "float64_of_int64 n = round64 (real_of_int (sint n))"

text \<open>
  \<open>Duration.Seconds\<close> of package time:
  \<^verbatim>\<open>sec := d / Second; nsec := d % Second; return float64(sec) + float64(nsec)/1e9\<close>
\<close>

definition Seconds :: "Duration \<Rightarrow> float64" where
  "Seconds d =
     (let sec = sint d sdiv 1000000000; nsec = sint d smod 1000000000
      in fadd (round64 (real_of_int sec))
              (fdiv (round64 (real_of_int nsec)) (round64 1000000000)))"

text \<open>An \<open>error\<close> value carries its message.\<close>

datatype error = Err string

definition errors_New :: "string \<Rightarrow> error" where
  "errors_New msg = Err msg"

record Result =
  Name :: string
  Bandwidth :: float64
  TTFB :: Duration
  CountryCode :: string
  IP :: string

section \<open>The dial function of both HTTP clients\<close>

text \<open>
  \<open>strconv.ParseUint(s, 10, 16)\<close>: an empty string and any byte that is not a decimal
  digit are syntax errors; a value above 65535 is a range error, reported as soon as the
  digits read so far exceed it.
\<close>

definition is_digit :: "char \<Rightarrow> bool" where
  "is_digit c = (48 \<le> (of_char c :: nat) \<and> (of_char c :: nat) \<le> 57)"

fun ParseUint_digits :: "nat \<Rightarrow> string \<Rightarrow> error + nat" where
  "ParseUint_digits n [] = Inr n"
| "ParseUint_digits n (c # cs) =
     (if \<not> is_digit c then Inl (Err ''invalid syntax'')
      else let n1 = n * 10 + (of_char c - 48)
           in if 65535 < n1 then Inl (Err ''value out of range'')
              else ParseUint_digits n1 cs)"

definition ParseUint_10_16 :: "string \<Rightarrow> error + uint64" where
  "ParseUint_10_16 s =
     (if s = [] then Inl (Err ''invalid syntax'')
      else case ParseUint_digits 0 s of
             Inl e \<Rightarrow> Inl e
           | Inr n \<Rightarrow> Inr (of_nat n))"

record Metadata =
  Host :: string
  DstPort :: uint16

text \<open>
  The two \<open>DialContext\<close> closures, of \<open>queryIPLocation\<close> and of \<open>TestProxy\<close>. They take
  \<open>net.SplitHostPort\<close> and the proxy's own \<open>DialContext\<close> as parameters; the proxy's
  answer, a connection or an error, is returned as it is.
\<close>

definition queryIPLocation_DialContext ::
  "(string \<Rightarrow> error + string \<times> string) \<Rightarrow> (Metadata \<Rightarrow> error + 'conn) \<Rightarrow> string \<Rightarrow> error + 'conn"
where
  "queryIPLocation_DialContext SplitHostPort proxy_DialContext addr =
     (case SplitHostPort addr of
        Inl err \<Rightarrow> Inl err
      | Inr (host, port) \<Rightarrow>
          (let u16Port = (case ParseUint_10_16 port of
                            Inr p \<Rightarrow> (ucast p :: uint16)
                          | Inl err \<Rightarrow> 0)
           in proxy_DialContext \<lparr>Host = host, DstPort = u16Port\<rparr>))"

definition TestProxy_DialContext ::
  "(string \<Rightarrow> error + string \<times> string) \<Rightarrow> (Metadata \<Rightarrow> error + 'conn) \<Rightarrow> string \<Rightarrow> error + 'conn"
where
  "TestProxy_DialContext SplitHostPort proxy_DialContext addr =
     (case SplitHostPort addr of
        Inl err \<Rightarrow> Inl err
      | Inr (host, port) \<Rightarrow>
          (let u16Port = (case ParseUint_10_16 port of
                            Inr p \<Rightarrow> (ucast p :: uint16)
                          | Inl err \<Rightarrow> 0)
           in proxy_DialContext \<lparr>Host = host, DstPort = u16Port\<rparr>))"

section \<open>Geolocation: checkCountry and queryIPLocation\<close>

text \<open>
  What \<open>encoding/json\<close> stores in a \<open>map[string]interface{}\<close>. The type assertion
  \<open>v.(string)\<close> in its two-result form gives the string and \<open>true\<close> for a string, and
  the empty string and \<open>false\<close> for a missing key or any other value.
\<close>

datatype json =
  JNull | JBool bool | JNumber float64 | JString string
  | JArray "json list" | JObject "(string \<times> json) list"

fun as_string :: "json option \<Rightarrow> string \<times> bool" where
  "as_string (Some (JString s)) = (s, True)"
| "as_string _ = ([], False)"

definition checkCountry :: "(string \<rightharpoonup> json) \<Rightarrow> string \<Rightarrow> string \<times> string \<times> bool" where
  "checkCountry result ip_url =
     (let (ip, ok) = as_string (result ''ip'') in
      if ok \<and> ip \<noteq> [] then
        (let (country, ok) = as_string (result ''country_code'') in
         if ok \<and> country \<noteq> [] then (country, ip, True)
         else (let (country, ok) = as_string (result ''country'') in
               if ok \<and> country \<noteq> [] then (country, ip, True)
               else ([], ip, True)))
      else ([], [], False))"

text \<open>
  What one candidate URL does when it is tried: \<open>http.NewRequest\<close> fails, \<open>client.Do\<close>
  fails, or a response arrives with a status code and a body that
  \<open>json.NewDecoder(resp.Body).Decode(&result)\<close> either rejects or decodes into a map
  (the JSON value \<open>null\<close> decodes into the nil map, which has no key).
\<close>

datatype decoded = DecodeError | Decoded "string \<rightharpoonup> json"

datatype attempt = NewRequestError | DoError | Response go_int decoded

text \<open>
  \<open>rand.Shuffle(n, swap)\<close> of package math/rand is the Fisher-Yates shuffle
  \<^verbatim>\<open>for i := n - 1; i > 0; i-- { j := rand.Intn(i + 1); swap(i, j) }\<close>
  The random source is a parameter: \<open>rnd i\<close> is the number drawn at index \<open>i\<close>, reduced
  into the range \<open>0..i\<close> that \<open>Intn (i + 1)\<close> guarantees.
\<close>

definition swap :: "nat \<Rightarrow> nat \<Rightarrow> 'a list \<Rightarrow> 'a list" where
  "swap i j xs = xs[i := xs ! j, j := xs ! i]"

fun Shuffle_loop :: "(nat \<Rightarrow> nat) \<Rightarrow> nat \<Rightarrow> 'a list \<Rightarrow> 'a list" where
  "Shuffle_loop rnd 0 xs = xs"
| "Shuffle_loop rnd (Suc i) xs =
     Shuffle_loop rnd i (swap (Suc i) (rnd (Suc i) mod (Suc (Suc i))) xs)"

definition Shuffle :: "(nat \<Rightarrow> nat) \<Rightarrow> 'a list \<Rightarrow> 'a list" where
  "Shuffle rnd xs = Shuffle_loop rnd (length xs - 1) xs"

definition token_url :: "string \<Rightarrow> string" where
  "token_url token = ''http://ipinfo.io/json?token='' @ token"

definition fallback_url :: string where
  "fallback_url = ''https://api.ip.sb/geoip''"

definition build_apiURLs :: "(nat \<Rightarrow> nat) \<Rightarrow> string list \<Rightarrow> string list" where
  "build_apiURLs rnd ipTokenArray =
     (let apiURLs = fold (\<lambda>token apiURLs. apiURLs @ [token_url token]) ipTokenArray [];
          apiURLs = Shuffle rnd apiURLs
      in apiURLs @ [fallback_url])"

text \<open>
  The body of the loop over the candidates: \<open>Some\<close> is the \<open>return\<close> of the accepting
  branch, \<open>None\<close> is \<open>continue\<close>.
\<close>

definition try_api :: "attempt \<Rightarrow> string \<Rightarrow> (string \<times> string) option" where
  "try_api a ip_url =
     (case a of
        NewRequestError \<Rightarrow> None
      | DoError \<Rightarrow> None
      | Response StatusCode body \<Rightarrow>
          if StatusCode \<noteq> 200 then None
          else (case body of
                  DecodeError \<Rightarrow> None
                | Decoded result \<Rightarrow>
                    (let (country_code, ip, ok) = checkCountry result ip_url
                     in if ok then Some (country_code, ip) else None)))"

text \<open>
  The loop. \<open>respond k url\<close> is what the \<open>k\<close>-th candidate, \<open>url\<close>, does when tried. Next
  to the three results of the Go function the model returns the candidates it tried, in
  order.
\<close>

fun range_apiURLs ::
  "(nat \<Rightarrow> string \<Rightarrow> attempt) \<Rightarrow> nat \<Rightarrow> string list \<Rightarrow> (string \<times> string \<times> error option) \<times> string list"
where
  "range_apiURLs respond k [] =
     (([], [], Some (errors_New ''all APIs failed or returned invalid data'')), [])"
| "range_apiURLs respond k (ip_url # rest) =
     (case try_api (respond k ip_url) ip_url of
        Some (country_code, ip) \<Rightarrow> ((country_code, ip, None), [ip_url])
      | None \<Rightarrow>
          (let (r, tried) = range_apiURLs respond (Suc k) rest in (r, ip_url # tried)))"

definition queryIPLocation ::
  "(nat \<Rightarrow> nat) \<Rightarrow> (nat \<Rightarrow> string \<Rightarrow> attempt) \<Rightarrow> string list
     \<Rightarrow> (string \<times> string \<times> error option) \<times> string list"
where
  "queryIPLocation rnd respond ipTokenArray =
     range_apiURLs respond 0 (build_apiURLs rnd ipTokenArray)"

section \<open>The download worker: TestProxy\<close>

text \<open>
  What the network does to one worker's request: \<open>client.Get\<close> fails (a connection error
  or the client's timeout), or a response arrives. For a response the fields are its
  status code, \<open>time.Since(start)\<close> when the response arrived, the byte count
  \<open>io.Copy\<close> returns, whether \<open>io.Copy\<close> also returned an error (a broken stream or the
  timeout in the middle of the body), and \<open>time.Since(start)\<close> after the copy.
\<close>

datatype transfer = GetError | GetResponse go_int Duration int64 bool Duration

definition TestProxy ::
  "string \<Rightarrow> (go_int \<Rightarrow> Duration \<Rightarrow> transfer) \<Rightarrow> go_int \<Rightarrow> Duration \<Rightarrow> Result \<times> int64"
where
  "TestProxy name proxy downloadSize timeout =
     (case proxy downloadSize timeout of
        GetError \<Rightarrow>
          (\<lparr>Name = name, Bandwidth = Finite (- 1), TTFB = - 1, CountryCode = [], IP = []\<rparr>, 0)
      | GetResponse StatusCode ttfb written copy_err finished \<Rightarrow>
          if 100 <s StatusCode - 200 then
            (\<lparr>Name = name, Bandwidth = Finite (- 1), TTFB = - 1, CountryCode = [], IP = []\<rparr>, 0)
          else if written = 0 then
            (\<lparr>Name = name, Bandwidth = Finite (- 1), TTFB = - 1, CountryCode = [], IP = []\<rparr>, 0)
          else
            (let downloadTime = finished - ttfb;
                 bandwidth = fdiv (float64_of_int64 written) (Seconds downloadTime)
             in (\<lparr>Name = name, Bandwidth = bandwidth, TTFB = ttfb, CountryCode = [], IP = []\<rparr>,
                 written)))"

section \<open>Fan-out and aggregation: TestProxyConcurrent\<close>

text \<open>
  Everything outside the program that a run depends on: what the network does to worker
  \<open>i\<close>'s request for a given size and timeout, the time the whole fan-out took
  (\<open>time.Since(start)\<close> after \<open>wg.Wait()\<close>), the random source of the shuffle and the
  answers of the geolocation candidates.
\<close>

record world =
  network :: "nat \<Rightarrow> go_int \<Rightarrow> Duration \<Rightarrow> transfer"
  wall_clock :: Duration
  random :: "nat \<Rightarrow> nat"
  geo_respond :: "nat \<Rightarrow> string \<Rightarrow> attempt"

text \<open>
  The two accumulators the goroutines share, and a log of the size each worker asked
  \<open>TestProxy\<close> for. A goroutine changes the accumulators by \<open>atomic.AddInt64\<close> only, so a
  run is the workers' updates in the order in which they finish; \<open>fanout\<close> below takes
  that order as a list of worker indices.
\<close>

record shared =
  downloaded :: int64
  totalTTFB :: int64
  requests :: "(nat \<times> go_int) list"

definition goroutine ::
  "string \<Rightarrow> world \<Rightarrow> go_int \<Rightarrow> Duration \<Rightarrow> nat \<Rightarrow> shared \<Rightarrow> shared"
where
  "goroutine name w chunkSize timeout i s =
     (let (result, wr) = TestProxy name (network w i) chunkSize timeout;
          s = s\<lparr>requests := requests s @ [(i, chunkSize)]\<rparr>
      in if wr \<noteq> 0
         then s\<lparr>downloaded := downloaded s + wr, totalTTFB := totalTTFB s + TTFB result\<rparr>
         else s)"

definition fanout ::
  "string \<Rightarrow> world \<Rightarrow> go_int \<Rightarrow> Duration \<Rightarrow> nat list \<Rightarrow> shared"
where
  "fanout name w chunkSize timeout order =
     fold (goroutine name w chunkSize timeout) order
       \<lparr>downloaded = 0, totalTTFB = 0, requests = []\<rparr>"

text \<open>The constant \<open>1e-9\<close>, converted to \<open>float64\<close> for the comparison.\<close>

definition epsilon :: float64 where
  "epsilon = round64 (1 / 1000000000)"

text \<open>
  What a run did besides returning its \<open>Result\<close>: the workers' requests, the arguments of
  every call of \<open>queryIPLocation\<close>, and the candidates that call tried.
\<close>

record trace =
  chunk_requests :: "(nat \<times> go_int) list"
  geo_calls :: "(Duration \<times> string list) list"
  geo_tried :: "string list"

definition TestProxyConcurrent ::
  "string \<Rightarrow> world \<Rightarrow> go_int \<Rightarrow> Duration \<Rightarrow> go_int \<Rightarrow> string list \<Rightarrow> Result \<times> trace"
where
  "TestProxyConcurrent name w downloadSize timeout concurrentCount ipTokenArray =
     (let concurrentCount = (if concurrentCount \<le>s 0 then 1 else concurrentCount);
          chunkSize = go_div downloadSize concurrentCount;
          s = fanout name w chunkSize timeout [0 ..< nat (sint concurrentCount)];
          downloadTime = wall_clock w;
          result = \<lparr>Name = name,
                    Bandwidth = fdiv (float64_of_int64 (downloaded s)) (Seconds downloadTime),
                    TTFB = go_div (totalTTFB s) concurrentCount,
                    CountryCode = ''NIL'',
                    IP = ''NIL''\<rparr>
      in if fgt (Bandwidth result) epsilon then
           (let ((country_code, ip, err), tried) =
                  queryIPLocation (random w) (geo_respond w) ipTokenArray;
                result =
                  (if err = None then
                     (let result = (if country_code \<noteq> []
                                    then result\<lparr>CountryCode := country_code\<rparr> else result)
                      in result\<lparr>IP := ip\<rparr>)
                   else result)
            in (result, \<lparr>chunk_requests = requests s,
                          geo_calls = [(timeout * 2, ipTokenArray)],
                          geo_tried = tried\<rparr>))
         else (result, \<lparr>chunk_requests = requests s, geo_calls = [], geo_tried = []\<rparr>))"

section \<open>The specification's words\<close>

text \<open>
  These two definitions follow the words of the specification, not the code: the value of
  a field when it is a string (the empty string when the field is missing or holds
  anything else), and the country code of a decoded object: the field \<open>country_code\<close>
  when it is a non-empty string, otherwise the field \<open>country\<close> when it is a non-empty
  string, otherwise the empty string.
\<close>

definition string_field :: "(string \<rightharpoonup> json) \<Rightarrow> string \<Rightarrow> string" where
  "string_field obj key = (case obj key of Some (JString s) \<Rightarrow> s | _ \<Rightarrow> [])"

definition spec_country_code :: "(string \<rightharpoonup> json) \<Rightarrow> string" where
  "spec_country_code obj =
     (if string_field obj ''country_code'' \<noteq> [] then string_field obj ''country_code''
      else if string_field obj ''country'' \<noteq> [] then string_field obj ''country''
      else [])"

text \<open>
  The number a string of decimal digits denotes, as the specification's "parses as an
  unsigned 16-bit integer" reads it: the string is not empty, holds digits only and
  denotes at most 65535.
\<close>

definition decimal :: "string \<Rightarrow> nat" where
  "decimal s = foldl (\<lambda>n c. n * 10 + (of_char c - 48)) 0 s"

definition parses_as_uint16 :: "string \<Rightarrow> bool" where
  "parses_as_uint16 s = (s \<noteq> [] \<and> list_all is_digit s \<and> decimal s \<le> 65535)"

text \<open>The concurrency after the first statement of \<open>TestProxyConcurrent\<close>.\<close>

abbreviation clamped :: "go_int \<Rightarrow> go_int" where
  "clamped concurrentCount \<equiv> (if concurrentCount \<le>s 0 then 1 else concurrentCount)"

section \<open>Example worlds\<close>

text \<open>
  Concrete networks, on which the theorems below are instantiated. First two
  geolocation services: one whose third candidate is the first to give a usable answer
  (the first answers 403, the second an empty \<open>ip\<close>), and one on which every candidate
  fails.
\<close>

definition respond_third :: "nat \<Rightarrow> string \<Rightarrow> attempt" where
  "respond_third k url =
     (if k = 0 then Response 403 DecodeError
      else if k = 1 then Response 200 (Decoded [''ip'' \<mapsto> JString []])
      else Response 200 (Decoded [''ip'' \<mapsto> JString ''203.0.113.7'', ''country'' \<mapsto> JString ''DE'']))"

definition respond_none :: "nat \<Rightarrow> string \<Rightarrow> attempt" where
  "respond_none k url =
     (if k = 0 then DoError
      else if k = 1 then Response 200 (Decoded [''ip'' \<mapsto> JString [], ''country'' \<mapsto> JString ''DE''])
      else Response 200 DecodeError)"

text \<open>An address splitter that splits three addresses and rejects every other one.\<close>

definition split_example :: "string \<Rightarrow> error + string \<times> string" where
  "split_example addr =
     (if addr = ''ipinfo.io:http'' then Inr (''ipinfo.io'', ''http'')
      else if addr = ''ipinfo.io:65536'' then Inr (''ipinfo.io'', ''65536'')
      else if addr = ''ipinfo.io:80'' then Inr (''ipinfo.io'', ''80'')
      else Inl (Err ''missing port in address''))"

text \<open>
  Four workers: workers 0 and 2 get the bytes they ask for, the first of them after
  100 ms, and workers 1 and 3 get no response. The whole run takes one second.
\<close>

definition network_two_of_four :: "nat \<Rightarrow> go_int \<Rightarrow> Duration \<Rightarrow> transfer" where
  "network_two_of_four i sz t =
     (if i = 0 \<or> i = 2 then GetResponse 200 100000000 sz False 1000000000 else GetError)"

definition world_two_of_four :: world where
  "world_two_of_four =
     \<lparr>network = network_two_of_four, wall_clock = 1000000000,
      random = (\<lambda>i. 0), geo_respond = respond_third\<rparr>"

text \<open>
  A network for six workers: no response, a status of 404, a status of 301, an empty
  body, 7 bytes followed by a broken stream, and a complete body with status 300.
\<close>

definition network_mixed :: "nat \<Rightarrow> go_int \<Rightarrow> Duration \<Rightarrow> transfer" where
  "network_mixed i sz t =
     (if i = 0 then GetError
      else if i = 1 then GetResponse 404 30000000 9 False 40000000
      else if i = 2 then GetResponse 301 30000000 9 False 40000000
      else if i = 3 then GetResponse 200 30000000 0 False 40000000
      else if i = 4 then GetResponse 200 30000000 7 True 5000000000
      else GetResponse 300 20000000 sz False 90000000)"

definition world_mixed :: world where
  "world_mixed =
     \<lparr>network = network_mixed, wall_clock = 5000000000,
      random = (\<lambda>i. 0), geo_respond = respond_none\<rparr>"

text \<open>
  One candidate that answers with an address and no country, behind a network on which
  every worker gets its bytes; and a network on which the only worker receives a single
  byte in a run of \<open>2 * 10^18\<close> nanoseconds.
\<close>

definition respond_ip_only :: "nat \<Rightarrow> string \<Rightarrow> attempt" where
  "respond_ip_only k url = Response 200 (Decoded [''ip'' \<mapsto> JString ''198.51.100.4''])"

definition world_ip_only :: world where
  "world_ip_only =
     \<lparr>network = (\<lambda>i sz t. GetResponse 200 100000000 sz False 1000000000),
      wall_clock = 1000000000, random = (\<lambda>i. 0), geo_respond = respond_ip_only\<rparr>"


section \<open>Lemmas about the geolocation resolver\<close>

lemma as_string_eq:
  "as_string v = (s, True) \<longleftrightarrow> v = Some (JString s)"
  by (cases v rule: as_string.cases) auto

lemma checkCountry_accepts:
  assumes "result ''ip'' = Some (JString ip)" and "ip \<noteq> []"
  shows "checkCountry result url =
           (case as_string (result ''country_code'') of
              (c, ok) \<Rightarrow> if ok \<and> c \<noteq> [] then c
                         else (case as_string (result ''country'') of
                                 (c, ok) \<Rightarrow> if ok \<and> c \<noteq> [] then c else []),
            ip, True)"
  using assms by (simp add: checkCountry_def split: prod.splits)

lemma checkCountry_rejects:
  assumes "\<not> (\<exists>ip. result ''ip'' = Some (JString ip) \<and> ip \<noteq> [])"
  shows "checkCountry result url = ([], [], False)"
proof (cases "as_string (result ''ip'')")
  case (Pair ip ok)
  with assms have "\<not> (ok \<and> ip \<noteq> [])"
    by (auto simp: as_string_eq)
  with Pair show ?thesis
    by (cases ok) (simp_all add: checkCountry_def)
qed

lemma try_api_Some_iff:
  "(\<exists>r. try_api a url = Some r) \<longleftrightarrow>
     (\<exists>result ip. a = Response 200 (Decoded result) \<and> result ''ip'' = Some (JString ip) \<and> ip \<noteq> [])"
proof (cases a)
  case (Response st body)
  show ?thesis
  proof (cases body)
    case DecodeError
    with Response show ?thesis by (simp add: try_api_def)
  next
    case (Decoded result)
    show ?thesis
    proof (cases "\<exists>ip. result ''ip'' = Some (JString ip) \<and> ip \<noteq> []")
      case True
      then obtain ip where "result ''ip'' = Some (JString ip)" "ip \<noteq> []" by blast
      with Response Decoded show ?thesis
        by (auto simp: try_api_def checkCountry_accepts)
    next
      case False
      with Response Decoded show ?thesis
        by (auto simp: try_api_def checkCountry_rejects)
    qed
  qed
qed (simp_all add: try_api_def)

lemma try_api_accepts:
  assumes "result ''ip'' = Some (JString ip)" and "ip \<noteq> []"
  shows "try_api (Response 200 (Decoded result)) url =
           Some (fst (checkCountry result url), ip)"
  using assms by (simp add: try_api_def checkCountry_accepts)

lemma range_apiURLs_all_fail:
  assumes "\<forall>i<length urls. try_api (respond (k + i) (urls ! i)) (urls ! i) = None"
  shows "range_apiURLs respond k urls =
           (([], [], Some (errors_New ''all APIs failed or returned invalid data'')), urls)"
  using assms
proof (induction urls arbitrary: k)
  case Nil
  show ?case by simp
next
  case (Cons u us)
  from Cons.prems have head: "try_api (respond k u) u = None"
    by (metis add.right_neutral length_greater_0_conv list.distinct(1) nth_Cons_0)
  have "\<forall>i<length us. try_api (respond (Suc k + i) (us ! i)) (us ! i) = None"
  proof (intro allI impI)
    fix i assume "i < length us"
    then have "Suc i < length (u # us)" by simp
    with Cons.prems have "try_api (respond (k + Suc i) ((u # us) ! Suc i)) ((u # us) ! Suc i) = None"
      by blast
    then show "try_api (respond (Suc k + i) (us ! i)) (us ! i) = None" by simp
  qed
  then have "range_apiURLs respond (Suc k) us =
           (([], [], Some (errors_New ''all APIs failed or returned invalid data'')), us)"
    by (rule Cons.IH)
  with head show ?case by simp
qed

lemma range_apiURLs_first_accepted:
  assumes "j < length urls"
    and "\<forall>i<j. try_api (respond (k + i) (urls ! i)) (urls ! i) = None"
    and "try_api (respond (k + j) (urls ! j)) (urls ! j) = Some (cc, ip)"
  shows "range_apiURLs respond k urls = ((cc, ip, None), take (Suc j) urls)"
  using assms
proof (induction urls arbitrary: k j)
  case Nil
  then show ?case by simp
next
  case (Cons u us)
  show ?case
  proof (cases j)
    case 0
    with Cons.prems show ?thesis by simp
  next
    case (Suc j')
    with Cons.prems have head: "try_api (respond k u) u = None"
      by (metis add.right_neutral nth_Cons_0 zero_less_Suc)
    have len: "j' < length us" using Cons.prems Suc by simp
    have before: "\<forall>i<j'. try_api (respond (Suc k + i) (us ! i)) (us ! i) = None"
    proof (intro allI impI)
      fix i assume "i < j'"
      then have "Suc i < j" using Suc by simp
      with Cons.prems(2) have "try_api (respond (k + Suc i) ((u # us) ! Suc i)) ((u # us) ! Suc i) = None"
        by blast
      then show "try_api (respond (Suc k + i) (us ! i)) (us ! i) = None" by simp
    qed
    have here: "try_api (respond (Suc k + j') (us ! j')) (us ! j') = Some (cc, ip)"
      using Cons.prems(3) Suc by simp
    have "range_apiURLs respond (Suc k) us = ((cc, ip, None), take (Suc j') us)"
      using len before here by (rule Cons.IH)
    with head Suc show ?thesis by simp
  qed
qed

lemma range_apiURLs_no_error:
  assumes "range_apiURLs respond k urls = ((cc, ip, None), tried)"
  shows "\<exists>j<length urls. (\<forall>i<j. try_api (respond (k + i) (urls ! i)) (urls ! i) = None)
           \<and> try_api (respond (k + j) (urls ! j)) (urls ! j) = Some (cc, ip)"
proof (rule ccontr)
  assume no: "\<not> ?thesis"
  have "\<forall>i<length urls. try_api (respond (k + i) (urls ! i)) (urls ! i) = None"
  proof (intro allI impI)
    fix i assume "i < length urls"
    then show "try_api (respond (k + i) (urls ! i)) (urls ! i) = None"
    proof (induction i rule: less_induct)
      case (less i)
      show ?case
      proof (cases "try_api (respond (k + i) (urls ! i)) (urls ! i)")
        case None then show ?thesis .
      next
        case (Some r)
        obtain c p where r: "r = (c, p)" by (cases r)
        have prev: "\<forall>i'<i. try_api (respond (k + i') (urls ! i')) (urls ! i') = None"
          using less by auto
        from range_apiURLs_first_accepted [OF less.prems prev Some [unfolded r]] assms
        have "c = cc" "p = ip" by simp_all
        with no less.prems prev Some r show ?thesis by blast
      qed
    qed
  qed
  from range_apiURLs_all_fail [OF this] assms show False by simp
qed

lemma range_apiURLs_tried:
  "\<exists>m\<le>length urls. snd (range_apiURLs respond k urls) = take m urls"
proof (induction urls arbitrary: k)
  case Nil
  show ?case by simp
next
  case (Cons u us)
  show ?case
  proof (cases "try_api (respond k u) u")
    case None
    from Cons.IH [of "Suc k"] obtain m
      where m: "m \<le> length us" "snd (range_apiURLs respond (Suc k) us) = take m us"
      by blast
    have "snd (range_apiURLs respond k (u # us)) = take (Suc m) (u # us)"
      using None m(2) by (simp add: case_prod_beta)
    moreover have "Suc m \<le> length (u # us)" using m(1) by simp
    ultimately show ?thesis by blast
  next
    case (Some r)
    then have "snd (range_apiURLs respond k (u # us)) = take (Suc 0) (u # us)"
      by (cases r) simp
    moreover have "Suc 0 \<le> length (u # us)" by simp
    ultimately show ?thesis by blast
  qed
qed

lemma length_swap: "length (swap i j xs) = length xs"
  by (simp add: swap_def)

lemma mset_swap_list: "i < length xs \<Longrightarrow> j < length xs \<Longrightarrow> mset (swap i j xs) = mset xs"
  unfolding swap_def by (rule mset_swap)

lemma mset_Shuffle_loop: "i < length xs \<Longrightarrow> mset (Shuffle_loop rnd i xs) = mset xs"
proof (induction i arbitrary: xs)
  case 0
  show ?case by simp
next
  case (Suc i)
  have j: "rnd (Suc i) mod Suc (Suc i) < length xs"
    using Suc.prems by (meson Suc_leI less_le_trans mod_less_divisor zero_less_Suc)
  have "mset (Shuffle_loop rnd i (swap (Suc i) (rnd (Suc i) mod Suc (Suc i)) xs))
          = mset (swap (Suc i) (rnd (Suc i) mod Suc (Suc i)) xs)"
    using Suc.prems by (intro Suc.IH) (simp add: length_swap)
  also have "\<dots> = mset xs"
    using Suc.prems j by (rule mset_swap_list)
  finally show ?case by simp
qed

lemma mset_Shuffle: "mset (Shuffle rnd xs) = mset xs"
proof (cases xs)
  case Nil
  then show ?thesis by (simp add: Shuffle_def)
next
  case (Cons y ys)
  then have "length xs - 1 < length xs" by simp
  then show ?thesis unfolding Shuffle_def by (rule mset_Shuffle_loop)
qed

lemma length_Shuffle: "length (Shuffle rnd xs) = length xs"
  using mset_Shuffle [of rnd xs] by (metis size_mset)

lemma fold_append_urls:
  "fold (\<lambda>token apiURLs. apiURLs @ [f token]) tokens acc = acc @ map f tokens"
  by (induction tokens arbitrary: acc) simp_all

lemma build_apiURLs_eq:
  "build_apiURLs rnd tokens = Shuffle rnd (map token_url tokens) @ [fallback_url]"
  by (simp add: build_apiURLs_def fold_append_urls)

lemma swap_append:
  assumes "i < length ys" and "j < length ys"
  shows "swap i j (ys @ zs) = swap i j ys @ zs"
  using assms by (simp add: swap_def nth_append list_update_append1)

lemma Shuffle_loop_append:
  "i < length ys \<Longrightarrow> Shuffle_loop rnd i (ys @ zs) = Shuffle_loop rnd i ys @ zs"
proof (induction i arbitrary: ys)
  case 0
  show ?case by simp
next
  case (Suc i)
  have j: "rnd (Suc i) mod Suc (Suc i) < length ys"
    using Suc.prems by (meson Suc_leI less_le_trans mod_less_divisor zero_less_Suc)
  have "Shuffle_loop rnd (Suc i) (ys @ zs)
          = Shuffle_loop rnd i (swap (Suc i) (rnd (Suc i) mod Suc (Suc i)) ys @ zs)"
    using Suc.prems j by (simp add: swap_append)
  also have "\<dots> = Shuffle_loop rnd i (swap (Suc i) (rnd (Suc i) mod Suc (Suc i)) ys) @ zs"
    using Suc.prems by (intro Suc.IH) (simp add: length_swap)
  finally show ?case by simp
qed

lemma swap_last:
  assumes "xs \<noteq> []" and "j < length xs"
  shows "swap (length xs - 1) j xs = butlast (swap (length xs - 1) j xs) @ [xs ! j]"
proof -
  let ?s = "swap (length xs - 1) j xs"
  have ne: "?s \<noteq> []" using assms by (simp add: swap_def)
  have "last ?s = ?s ! (length xs - 1)"
    using ne by (simp add: last_conv_nth length_swap)
  also have "\<dots> = xs ! j"
    using assms by (cases "j = length xs - 1") (simp_all add: swap_def)
  finally have "last ?s = xs ! j" .
  with ne show ?thesis
    by (metis append_butlast_last_id)
qed

text \<open>The law of the Fisher-Yates shuffle: the last place gets the element drawn first.\<close>

lemma Shuffle_step:
  assumes "xs \<noteq> []"
  shows "Shuffle rnd xs =
           Shuffle rnd (butlast (swap (length xs - 1) (rnd (length xs - 1) mod length xs) xs))
             @ [xs ! (rnd (length xs - 1) mod length xs)]"
proof (cases "length xs - 1")
  case 0
  with assms have len: "length xs = 1" by (cases xs) simp_all
  then obtain x where x: "xs = [x]" by (cases xs) simp_all
  show ?thesis by (simp add: x Shuffle_def swap_def)
next
  case (Suc m)
  then have len: "length xs = Suc (Suc m)" by simp
  let ?j = "rnd (Suc m) mod Suc (Suc m)"
  let ?s = "swap (Suc m) ?j xs"
  have j: "?j < length xs" using len by simp
  have split: "?s = butlast ?s @ [xs ! ?j]"
    using swap_last [OF assms j] len by simp
  have lb: "length (butlast ?s) = Suc m"
    by (simp add: length_swap len)
  have "Shuffle rnd xs = Shuffle_loop rnd m ?s"
    by (simp add: Shuffle_def len)
  also have "\<dots> = Shuffle_loop rnd m (butlast ?s @ [xs ! ?j])"
    using split by simp
  also have "\<dots> = Shuffle_loop rnd m (butlast ?s) @ [xs ! ?j]"
    using lb by (intro Shuffle_loop_append) simp
  also have "Shuffle_loop rnd m (butlast ?s) = Shuffle rnd (butlast ?s)"
    unfolding Shuffle_def lb by simp
  finally show ?thesis by (simp add: len)
qed

lemma Shuffle_loop_cong:
  "(\<forall>k. 0 < k \<and> k \<le> i \<longrightarrow> rnd k = rnd' k) \<Longrightarrow> Shuffle_loop rnd i xs = Shuffle_loop rnd' i xs"
  by (induction i arbitrary: xs) simp_all

lemma Shuffle_cong:
  "(\<forall>k < length xs. rnd k = rnd' k) \<Longrightarrow> Shuffle rnd xs = Shuffle rnd' xs"
  unfolding Shuffle_def by (rule Shuffle_loop_cong) (cases xs; simp)

text \<open>Every order of the list is the result of the shuffle for some random source.\<close>

lemma Shuffle_reaches:
  "mset ys = mset xs \<Longrightarrow> \<exists>rnd. Shuffle rnd xs = ys"
proof (induction "length xs" arbitrary: xs ys)
  case 0
  then show ?case by (simp add: Shuffle_def)
next
  case (Suc m)
  from Suc.hyps(2) have xs: "xs \<noteq> []" by auto
  have "length ys = length xs" using Suc.prems by (metis size_mset)
  with xs have "ys \<noteq> []" by auto
  then obtain ys' y where ys: "ys = ys' @ [y]"
    by (metis append_butlast_last_id)
  have "y \<in> set xs"
    using Suc.prems ys by (metis in_set_conv_decomp mset_eq_setD)
  then obtain j where j: "j < length xs" "xs ! j = y"
    by (metis in_set_conv_nth)
  let ?s = "swap (length xs - 1) j xs"
  have split: "?s = butlast ?s @ [y]"
    using swap_last [OF xs j(1)] j(2) by simp
  have "mset (butlast ?s) + {#y#} = mset ?s"
    using split by (metis mset.simps(2) mset_append union_mset_add_mset_right add.right_neutral mset.simps(1))
  also have "\<dots> = mset xs"
    using xs j(1) by (intro mset_swap_list) simp_all
  also have "\<dots> = mset ys' + {#y#}"
    using Suc.prems ys by simp
  finally have m: "mset ys' = mset (butlast ?s)" by simp
  have lb: "length (butlast ?s) = m"
    using Suc.hyps(2) by (simp add: length_swap)
  from Suc.hyps(1) [OF lb [symmetric] m] obtain rnd' where r: "Shuffle rnd' (butlast ?s) = ys'"
    by blast
  let ?rnd = "rnd'(m := j)"
  have idx: "length xs - 1 = m" using Suc.hyps(2) by simp
  have jm: "?rnd (length xs - 1) mod length xs = j"
    using j(1) idx by simp
  have "Shuffle ?rnd xs = Shuffle ?rnd (butlast ?s) @ [y]"
    using Shuffle_step [OF xs, of ?rnd] jm j(2) by simp
  also have "Shuffle ?rnd (butlast ?s) = Shuffle rnd' (butlast ?s)"
  proof (rule Shuffle_cong)
    show "\<forall>k<length (butlast ?s). ?rnd k = rnd' k"
      unfolding lb by simp
  qed
  finally show ?case using r ys by auto
qed

lemma map_swap:
  "i < length xs \<Longrightarrow> j < length xs \<Longrightarrow> map f (swap i j xs) = swap i j (map f xs)"
  by (simp add: swap_def map_update)

lemma build_apiURLs_step:
  assumes "tokens \<noteq> []"
  shows "build_apiURLs rnd tokens =
           butlast (build_apiURLs rnd
                      (butlast (swap (length tokens - 1)
                                  (rnd (length tokens - 1) mod length tokens) tokens)))
             @ [token_url (tokens ! (rnd (length tokens - 1) mod length tokens)), fallback_url]"
proof -
  let ?n = "length tokens"
  let ?j = "rnd (?n - 1) mod ?n"
  have j: "?j < ?n" using assms by simp
  have n: "?n - 1 < ?n" using assms by simp
  have "Shuffle rnd (map token_url tokens) =
          Shuffle rnd (butlast (swap (?n - 1) ?j (map token_url tokens)))
            @ [map token_url tokens ! ?j]"
    using Shuffle_step [of "map token_url tokens" rnd] assms by simp
  also have "butlast (swap (?n - 1) ?j (map token_url tokens))
               = map token_url (butlast (swap (?n - 1) ?j tokens))"
    using j n by (simp add: map_swap map_butlast)
  also have "map token_url tokens ! ?j = token_url (tokens ! ?j)"
    using j by simp
  finally show ?thesis
    by (simp add: build_apiURLs_eq)
qed

section \<open>The claims about the geolocation resolver\<close>

text \<open>
  Claim C5. For a token list of length \<open>n\<close>, \<open>queryIPLocation\<close> builds \<open>n + 1\<close> candidates:
  the first \<open>n\<close> are the ipinfo.io URLs of the tokens in an order that the random source
  decides, the last one is the fixed address \<open>https://api.ip.sb/geoip\<close>, appended after
  the shuffle; with no token the list is that one address. The order is the one of the
  Fisher-Yates shuffle: the number drawn for the last token place selects the token
  whose URL stands there, the last token takes the selected token's place, and the
  places before are filled from the remaining tokens in the same way. Every order of the
  token URLs is the result for some random source, and the fixed address is never moved.
  The candidates are tried in the order of the list, so the fixed address is tried last.
\<close>

theorem candidate_list_shape:
  "length (build_apiURLs rnd tokens) = length tokens + 1
   \<and> mset (take (length tokens) (build_apiURLs rnd tokens)) = mset (map token_url tokens)
   \<and> token_url t = ''http://ipinfo.io/json?token='' @ t
   \<and> last (build_apiURLs rnd tokens) = ''https://api.ip.sb/geoip''
   \<and> build_apiURLs rnd [] = [''https://api.ip.sb/geoip'']
   \<and> (tokens \<noteq> [] \<longrightarrow>
        (let j = rnd (length tokens - 1) mod length tokens
         in build_apiURLs rnd tokens =
              butlast (build_apiURLs rnd (butlast (swap (length tokens - 1) j tokens)))
                @ [token_url (tokens ! j), ''https://api.ip.sb/geoip'']))
   \<and> (\<forall>order. mset order = mset (map token_url tokens) \<longrightarrow>
          (\<exists>rnd'. build_apiURLs rnd' tokens = order @ [''https://api.ip.sb/geoip'']))
   \<and> (\<exists>m\<le>length tokens + 1.
         snd (queryIPLocation rnd respond tokens) = take m (build_apiURLs rnd tokens))"
proof (intro conjI)
  show "length (build_apiURLs rnd tokens) = length tokens + 1"
    by (simp add: build_apiURLs_eq length_Shuffle)
  show "mset (take (length tokens) (build_apiURLs rnd tokens)) = mset (map token_url tokens)"
    by (simp add: build_apiURLs_eq length_Shuffle mset_Shuffle)
  show "token_url t = ''http://ipinfo.io/json?token='' @ t"
    by (simp add: token_url_def)
  show "last (build_apiURLs rnd tokens) = ''https://api.ip.sb/geoip''"
    by (simp add: build_apiURLs_eq fallback_url_def)
  show "build_apiURLs rnd [] = [''https://api.ip.sb/geoip'']"
    by (simp add: build_apiURLs_eq Shuffle_def fallback_url_def)
  show "tokens \<noteq> [] \<longrightarrow>
        (let j = rnd (length tokens - 1) mod length tokens
         in build_apiURLs rnd tokens =
              butlast (build_apiURLs rnd (butlast (swap (length tokens - 1) j tokens)))
                @ [token_url (tokens ! j), ''https://api.ip.sb/geoip''])"
    unfolding Let_def using build_apiURLs_step [of tokens rnd]
    by (simp only: fallback_url_def) blast
  show "\<forall>order. mset order = mset (map token_url tokens) \<longrightarrow>
          (\<exists>rnd'. build_apiURLs rnd' tokens = order @ [''https://api.ip.sb/geoip''])"
  proof (intro allI impI)
    fix order assume "mset order = mset (map token_url tokens)"
    from Shuffle_reaches [OF this] obtain rnd' where "Shuffle rnd' (map token_url tokens) = order"
      by blast
    then have "build_apiURLs rnd' tokens = order @ [''https://api.ip.sb/geoip'']"
      by (simp add: build_apiURLs_eq fallback_url_def)
    then show "\<exists>rnd'. build_apiURLs rnd' tokens = order @ [''https://api.ip.sb/geoip'']"
      by blast
  qed
  have "\<exists>m\<le>length (build_apiURLs rnd tokens).
          snd (queryIPLocation rnd respond tokens) = take m (build_apiURLs rnd tokens)"
    unfolding queryIPLocation_def by (rule range_apiURLs_tried)
  then show "\<exists>m\<le>length tokens + 1.
          snd (queryIPLocation rnd respond tokens) = take m (build_apiURLs rnd tokens)"
    by (simp add: build_apiURLs_eq length_Shuffle)
qed

theorem candidate_list_shape_witness:
  "build_apiURLs (\<lambda>i. 0) [''a'', ''b'', ''c''] =
     [''http://ipinfo.io/json?token=b'', ''http://ipinfo.io/json?token=c'',
      ''http://ipinfo.io/json?token=a'', ''https://api.ip.sb/geoip'']
   \<and> build_apiURLs (\<lambda>i. i) [''a'', ''b'', ''c''] =
     [''http://ipinfo.io/json?token=a'', ''http://ipinfo.io/json?token=b'',
      ''http://ipinfo.io/json?token=c'', ''https://api.ip.sb/geoip'']
   \<and> (\<exists>rnd. build_apiURLs rnd [''a'', ''b'', ''c''] =
     [''http://ipinfo.io/json?token=c'', ''http://ipinfo.io/json?token=a'',
      ''http://ipinfo.io/json?token=b'', ''https://api.ip.sb/geoip''])"
proof -
  have ne: "[''a'', ''b'', ''c''] \<noteq> ([] :: string list)" by simp
  note zero = candidate_list_shape [of "\<lambda>i. 0" "[''a'', ''b'', ''c'']" "[]" respond_none]
  note ident = candidate_list_shape [of "\<lambda>i. i" "[''a'', ''b'', ''c'']" "[]" respond_none]
  from zero ne have "(let j = (\<lambda>i. 0 :: nat) (length [''a'', ''b'', ''c''] - 1) mod length [''a'', ''b'', ''c'']
         in build_apiURLs (\<lambda>i. 0) [''a'', ''b'', ''c''] =
              butlast (build_apiURLs (\<lambda>i. 0) (butlast (swap (length [''a'', ''b'', ''c''] - 1) j [''a'', ''b'', ''c''])))
                @ [token_url ([''a'', ''b'', ''c''] ! j), ''https://api.ip.sb/geoip''])"
    by blast
  then have 1: "build_apiURLs (\<lambda>i. 0) [''a'', ''b'', ''c''] =
     [''http://ipinfo.io/json?token=b'', ''http://ipinfo.io/json?token=c'',
      ''http://ipinfo.io/json?token=a'', ''https://api.ip.sb/geoip'']"
    by (simp add: Let_def swap_def build_apiURLs_def Shuffle_def token_url_def fallback_url_def)
  from ident ne have "(let j = (\<lambda>i. i :: nat) (length [''a'', ''b'', ''c''] - 1) mod length [''a'', ''b'', ''c'']
         in build_apiURLs (\<lambda>i. i) [''a'', ''b'', ''c''] =
              butlast (build_apiURLs (\<lambda>i. i) (butlast (swap (length [''a'', ''b'', ''c''] - 1) j [''a'', ''b'', ''c''])))
                @ [token_url ([''a'', ''b'', ''c''] ! j), ''https://api.ip.sb/geoip''])"
    by blast
  then have 2: "build_apiURLs (\<lambda>i. i) [''a'', ''b'', ''c''] =
     [''http://ipinfo.io/json?token=a'', ''http://ipinfo.io/json?token=b'',
      ''http://ipinfo.io/json?token=c'', ''https://api.ip.sb/geoip'']"
    by (simp add: Let_def swap_def build_apiURLs_def Shuffle_def token_url_def fallback_url_def)
  have m: "mset [''http://ipinfo.io/json?token=c'', ''http://ipinfo.io/json?token=a'',
                 ''http://ipinfo.io/json?token=b'']
             = mset (map token_url [''a'', ''b'', ''c''])"
    by (simp add: token_url_def)
  from zero have "\<forall>order. mset order = mset (map token_url [''a'', ''b'', ''c'']) \<longrightarrow>
          (\<exists>rnd'. build_apiURLs rnd' [''a'', ''b'', ''c''] = order @ [''https://api.ip.sb/geoip''])"
    by blast
  with m have 3: "\<exists>rnd'. build_apiURLs rnd' [''a'', ''b'', ''c''] =
      [''http://ipinfo.io/json?token=c'', ''http://ipinfo.io/json?token=a'',
       ''http://ipinfo.io/json?token=b''] @ [''https://api.ip.sb/geoip'']"
    by blast
  from 1 2 3 show ?thesis by simp
qed

lemma as_string_string_field:
  "as_string (obj key) = (s, ok) \<Longrightarrow> (ok \<and> s \<noteq> []) = (string_field obj key \<noteq> []) \<and> (ok \<longrightarrow> string_field obj key = s)"
  by (cases "obj key" rule: as_string.cases) (auto simp: string_field_def)

lemma checkCountry_spec_country_code:
  assumes "result ''ip'' = Some (JString ip)" and "ip \<noteq> []"
  shows "checkCountry result url = (spec_country_code result, ip, True)"
proof -
  obtain c1 ok1 where c1: "as_string (result ''country_code'') = (c1, ok1)"
    by (cases "as_string (result ''country_code'')")
  obtain c2 ok2 where c2: "as_string (result ''country'') = (c2, ok2)"
    by (cases "as_string (result ''country'')")
  note f1 = as_string_string_field [of result "''country_code''", OF c1]
    and f2 = as_string_string_field [of result "''country''", OF c2]
  show ?thesis
    using assms c1 c2 f1 f2
    by (auto simp: checkCountry_def spec_country_code_def)
qed

lemma try_api_accepts_spec:
  assumes "result ''ip'' = Some (JString ip)" and "ip \<noteq> []"
  shows "try_api (Response 200 (Decoded result)) url = Some (spec_country_code result, ip)"
  using assms by (simp add: try_api_def checkCountry_spec_country_code)

lemma try_api_None_iff:
  "try_api a url = None \<longleftrightarrow>
     a = NewRequestError \<or> a = DoError
     \<or> (\<exists>st body. a = Response st body \<and>
           (st \<noteq> 200 \<or> body = DecodeError
            \<or> (\<exists>obj. body = Decoded obj \<and> \<not> (\<exists>ip. obj ''ip'' = Some (JString ip) \<and> ip \<noteq> []))))"
proof -
  have "try_api a url = None \<longleftrightarrow> \<not> (\<exists>r. try_api a url = Some r)"
    by (cases "try_api a url") simp_all
  also have "\<dots> \<longleftrightarrow> \<not> (\<exists>result ip. a = Response 200 (Decoded result)
                         \<and> result ''ip'' = Some (JString ip) \<and> ip \<noteq> [])"
    by (simp only: try_api_Some_iff)
  also have "\<dots> \<longleftrightarrow> a = NewRequestError \<or> a = DoError
     \<or> (\<exists>st body. a = Response st body \<and>
           (st \<noteq> 200 \<or> body = DecodeError
            \<or> (\<exists>obj. body = Decoded obj \<and> \<not> (\<exists>ip. obj ''ip'' = Some (JString ip) \<and> ip \<noteq> []))))"
  proof (cases a)
    case (Response st body)
    then show ?thesis by (cases body) auto
  qed simp_all
  finally show ?thesis .
qed

lemma range_apiURLs_reaches:
  assumes "j < length urls"
    and "\<forall>i<j. try_api (respond (k + i) (urls ! i)) (urls ! i) = None"
  shows "take (Suc j) (snd (range_apiURLs respond k urls)) = take (Suc j) urls"
  using assms
proof (induction urls arbitrary: k j)
  case Nil
  then show ?case by simp
next
  case (Cons u us)
  show ?case
  proof (cases j)
    case 0
    then show ?thesis by (simp add: case_prod_beta split: option.splits)
  next
    case (Suc j')
    with Cons.prems have head: "try_api (respond k u) u = None"
      by (metis add.right_neutral nth_Cons_0 zero_less_Suc)
    have len: "j' < length us" using Cons.prems Suc by simp
    have before: "\<forall>i<j'. try_api (respond (Suc k + i) (us ! i)) (us ! i) = None"
    proof (intro allI impI)
      fix i assume "i < j'"
      then have "Suc i < j" using Suc by simp
      with Cons.prems(2) have "try_api (respond (k + Suc i) ((u # us) ! Suc i)) ((u # us) ! Suc i) = None"
        by blast
      then show "try_api (respond (Suc k + i) (us ! i)) (us ! i) = None" by simp
    qed
    have "take (Suc j') (snd (range_apiURLs respond (Suc k) us)) = take (Suc j') us"
      using len before by (rule Cons.IH)
    with head Suc show ?thesis by (simp add: case_prod_beta)
  qed
qed

text \<open>
  Claim C6. \<open>queryIPLocation\<close> accepts a candidate's response exactly when the status
  is 200, the body decodes and the decoded object's \<open>ip\<close> is a non-empty string. It then
  returns that \<open>ip\<close> with the country code the specification describes
  (\<open>country_code\<close> if a non-empty string, else \<open>country\<close> if a non-empty string, else the
  empty string), and no later candidate is tried: when candidate \<open>j\<close> is the first one
  accepted, the candidates tried are exactly the first \<open>j + 1\<close>. A call that returns no
  error has returned what its first accepted candidate gave.
\<close>

theorem candidate_accepted_iff:
  "((\<exists>r. try_api a url = Some r) \<longleftrightarrow>
      (\<exists>obj ip. a = Response 200 (Decoded obj) \<and> obj ''ip'' = Some (JString ip) \<and> ip \<noteq> []))
   \<and> (\<forall>obj ip. obj ''ip'' = Some (JString ip) \<and> ip \<noteq> [] \<longrightarrow>
          try_api (Response 200 (Decoded obj)) url = Some (spec_country_code obj, ip))
   \<and> (let urls = build_apiURLs rnd tokens in
        (\<forall>j cc ip. j < length urls
             \<and> (\<forall>i<j. try_api (respond i (urls ! i)) (urls ! i) = None)
             \<and> try_api (respond j (urls ! j)) (urls ! j) = Some (cc, ip) \<longrightarrow>
           queryIPLocation rnd respond tokens = ((cc, ip, None), take (Suc j) urls))
      \<and> (\<forall>cc ip tried. queryIPLocation rnd respond tokens = ((cc, ip, None), tried) \<longrightarrow>
           (\<exists>j<length urls. (\<forall>i<j. try_api (respond i (urls ! i)) (urls ! i) = None)
              \<and> try_api (respond j (urls ! j)) (urls ! j) = Some (cc, ip))))"
proof (intro conjI)
  show "(\<exists>r. try_api a url = Some r) \<longleftrightarrow>
      (\<exists>obj ip. a = Response 200 (Decoded obj) \<and> obj ''ip'' = Some (JString ip) \<and> ip \<noteq> [])"
    by (rule try_api_Some_iff)
  show "\<forall>obj ip. obj ''ip'' = Some (JString ip) \<and> ip \<noteq> [] \<longrightarrow>
          try_api (Response 200 (Decoded obj)) url = Some (spec_country_code obj, ip)"
    by (simp add: try_api_accepts_spec)
  show "let urls = build_apiURLs rnd tokens in
        (\<forall>j cc ip. j < length urls
             \<and> (\<forall>i<j. try_api (respond i (urls ! i)) (urls ! i) = None)
             \<and> try_api (respond j (urls ! j)) (urls ! j) = Some (cc, ip) \<longrightarrow>
           queryIPLocation rnd respond tokens = ((cc, ip, None), take (Suc j) urls))
      \<and> (\<forall>cc ip tried. queryIPLocation rnd respond tokens = ((cc, ip, None), tried) \<longrightarrow>
           (\<exists>j<length urls. (\<forall>i<j. try_api (respond i (urls ! i)) (urls ! i) = None)
              \<and> try_api (respond j (urls ! j)) (urls ! j) = Some (cc, ip)))"
    unfolding Let_def queryIPLocation_def
  proof (intro conjI allI impI)
    fix j cc ip
    let ?urls = "build_apiURLs rnd tokens"
    assume h: "j < length ?urls
      \<and> (\<forall>i<j. try_api (respond i (?urls ! i)) (?urls ! i) = None)
      \<and> try_api (respond j (?urls ! j)) (?urls ! j) = Some (cc, ip)"
    show "range_apiURLs respond 0 ?urls = ((cc, ip, None), take (Suc j) ?urls)"
      using h by (intro range_apiURLs_first_accepted) simp_all
  next
    fix cc ip tried
    let ?urls = "build_apiURLs rnd tokens"
    assume "range_apiURLs respond 0 ?urls = ((cc, ip, None), tried)"
    from range_apiURLs_no_error [OF this]
    show "\<exists>j<length ?urls. (\<forall>i<j. try_api (respond i (?urls ! i)) (?urls ! i) = None)
              \<and> try_api (respond j (?urls ! j)) (?urls ! j) = Some (cc, ip)"
      by simp
  qed
qed

text \<open>
  Claim C8. A candidate fails exactly when its request cannot be built or sent, its
  status is not 200, its body does not decode, or the decoded object has no non-empty
  string \<open>ip\<close>. When every candidate of the list fails, the fixed last one included,
  \<open>queryIPLocation\<close> returns the empty country, the empty IP and the one error
  \<open>all APIs failed or returned invalid data\<close>, having tried every candidate. A failure
  never ends the iteration: candidate \<open>j\<close> is tried whenever all candidates before it
  failed.
\<close>

theorem exhaustion_returns_error:
  "(try_api a url = None \<longleftrightarrow>
      a = NewRequestError \<or> a = DoError
      \<or> (\<exists>st body. a = Response st body \<and>
            (st \<noteq> 200 \<or> body = DecodeError
             \<or> (\<exists>obj. body = Decoded obj \<and> \<not> (\<exists>ip. obj ''ip'' = Some (JString ip) \<and> ip \<noteq> [])))))
   \<and> (let urls = build_apiURLs rnd tokens in
        ((\<forall>i<length urls. try_api (respond i (urls ! i)) (urls ! i) = None) \<longrightarrow>
           queryIPLocation rnd respond tokens =
             (([], [], Some (Err ''all APIs failed or returned invalid data'')), urls))
      \<and> (\<forall>j<length urls. (\<forall>i<j. try_api (respond i (urls ! i)) (urls ! i) = None) \<longrightarrow>
           take (Suc j) (snd (queryIPLocation rnd respond tokens)) = take (Suc j) urls))"
proof (intro conjI)
  show "try_api a url = None \<longleftrightarrow>
      a = NewRequestError \<or> a = DoError
      \<or> (\<exists>st body. a = Response st body \<and>
            (st \<noteq> 200 \<or> body = DecodeError
             \<or> (\<exists>obj. body = Decoded obj \<and> \<not> (\<exists>ip. obj ''ip'' = Some (JString ip) \<and> ip \<noteq> []))))"
    by (rule try_api_None_iff)
  show "let urls = build_apiURLs rnd tokens in
        ((\<forall>i<length urls. try_api (respond i (urls ! i)) (urls ! i) = None) \<longrightarrow>
           queryIPLocation rnd respond tokens =
             (([], [], Some (Err ''all APIs failed or returned invalid data'')), urls))
      \<and> (\<forall>j<length urls. (\<forall>i<j. try_api (respond i (urls ! i)) (urls ! i) = None) \<longrightarrow>
           take (Suc j) (snd (queryIPLocation rnd respond tokens)) = take (Suc j) urls)"
    unfolding Let_def queryIPLocation_def
  proof (intro conjI allI impI)
    let ?urls = "build_apiURLs rnd tokens"
    assume "\<forall>i<length ?urls. try_api (respond i (?urls ! i)) (?urls ! i) = None"
    then have "\<forall>i<length ?urls. try_api (respond (0 + i) (?urls ! i)) (?urls ! i) = None"
      by simp
    from range_apiURLs_all_fail [OF this]
    show "range_apiURLs respond 0 ?urls =
             (([], [], Some (Err ''all APIs failed or returned invalid data'')), ?urls)"
      by (simp add: errors_New_def)
  next
    fix j
    let ?urls = "build_apiURLs rnd tokens"
    assume j: "j < length ?urls"
      and "\<forall>i<j. try_api (respond i (?urls ! i)) (?urls ! i) = None"
    then have "\<forall>i<j. try_api (respond (0 + i) (?urls ! i)) (?urls ! i) = None"
      by simp
    with j show "take (Suc j) (snd (range_apiURLs respond 0 ?urls)) = take (Suc j) ?urls"
      by (rule range_apiURLs_reaches)
  qed
qed

lemma urls_ab:
  "build_apiURLs (\<lambda>i. 0) [''a'', ''b''] =
     [''http://ipinfo.io/json?token=b'', ''http://ipinfo.io/json?token=a'', ''https://api.ip.sb/geoip'']"
  by (simp add: build_apiURLs_def Shuffle_def swap_def token_url_def fallback_url_def)

theorem candidate_accepted_iff_witness:
  "queryIPLocation (\<lambda>i. 0) respond_third [''a'', ''b''] =
     ((''DE'', ''203.0.113.7'', None),
      [''http://ipinfo.io/json?token=b'', ''http://ipinfo.io/json?token=a'',
       ''https://api.ip.sb/geoip''])"
proof -
  let ?urls = "build_apiURLs (\<lambda>i. 0) [''a'', ''b'']"
  let ?obj = "[''ip'' \<mapsto> JString ''203.0.113.7'', ''country'' \<mapsto> JString ''DE'']"
  note inst = candidate_accepted_iff [of "respond_third 2 (?urls ! 2)" "?urls ! 2" "\<lambda>i. 0"
      "[''a'', ''b'']" respond_third]
  have ip: "?obj ''ip'' = Some (JString ''203.0.113.7'') \<and> ''203.0.113.7'' \<noteq> []"
    by simp
  from inst have "\<forall>obj ip. obj ''ip'' = Some (JString ip) \<and> ip \<noteq> [] \<longrightarrow>
      try_api (Response 200 (Decoded obj)) (?urls ! 2) = Some (spec_country_code obj, ip)"
    by blast
  with ip have "try_api (Response 200 (Decoded ?obj)) (?urls ! 2)
                  = Some (spec_country_code ?obj, ''203.0.113.7'')"
    by blast
  then have third: "try_api (respond_third 2 (?urls ! 2)) (?urls ! 2) = Some (''DE'', ''203.0.113.7'')"
    by (simp add: respond_third_def spec_country_code_def string_field_def)
  have before: "\<forall>i<2. try_api (respond_third i (?urls ! i)) (?urls ! i) = None"
    by (simp add: less_Suc_eq numeral_2_eq_2 respond_third_def try_api_def checkCountry_def)
  have len: "2 < length ?urls" by (simp add: urls_ab)
  from inst have "\<forall>j cc ip. j < length ?urls
             \<and> (\<forall>i<j. try_api (respond_third i (?urls ! i)) (?urls ! i) = None)
             \<and> try_api (respond_third j (?urls ! j)) (?urls ! j) = Some (cc, ip) \<longrightarrow>
           queryIPLocation (\<lambda>i. 0) respond_third [''a'', ''b''] = ((cc, ip, None), take (Suc j) ?urls)"
    unfolding Let_def by blast
  with len before third
  have "queryIPLocation (\<lambda>i. 0) respond_third [''a'', ''b'']
          = ((''DE'', ''203.0.113.7'', None), take (Suc 2) ?urls)"
    by blast
  then show ?thesis by (simp add: urls_ab)
qed

theorem exhaustion_returns_error_witness:
  "queryIPLocation (\<lambda>i. 0) respond_none [''a'', ''b''] =
     (([], [], Some (Err ''all APIs failed or returned invalid data'')),
      [''http://ipinfo.io/json?token=b'', ''http://ipinfo.io/json?token=a'',
       ''https://api.ip.sb/geoip''])"
proof -
  let ?urls = "build_apiURLs (\<lambda>i. 0) [''a'', ''b'']"
  note inst = exhaustion_returns_error [of DoError "[]" "\<lambda>i. 0" "[''a'', ''b'']" respond_none]
  have "\<forall>i<3. try_api (respond_none i (?urls ! i)) (?urls ! i) = None"
    by (simp add: less_Suc_eq numeral_3_eq_3 respond_none_def try_api_def checkCountry_def)
  then have fail: "\<forall>i<length ?urls. try_api (respond_none i (?urls ! i)) (?urls ! i) = None"
    by (simp add: urls_ab)
  from inst have "(\<forall>i<length ?urls. try_api (respond_none i (?urls ! i)) (?urls ! i) = None) \<longrightarrow>
           queryIPLocation (\<lambda>i. 0) respond_none [''a'', ''b''] =
             (([], [], Some (Err ''all APIs failed or returned invalid data'')), ?urls)"
    unfolding Let_def by blast
  with fail show ?thesis by (simp add: urls_ab)
qed

lemma foldl_decimal_ge:
  fixes n :: nat
  shows "n \<le> foldl (\<lambda>n c. n * 10 + (of_char c - 48)) n cs"
proof (induction cs arbitrary: n)
  case Nil
  show ?case by simp
next
  case (Cons c cs)
  have "n \<le> n * 10 + (of_char c - 48)" by simp
  also have "\<dots> \<le> foldl (\<lambda>n c. n * 10 + (of_char c - 48)) (n * 10 + (of_char c - 48)) cs"
    by (rule Cons.IH)
  finally show ?case by simp
qed

lemma ParseUint_digits_Inr_iff:
  "ParseUint_digits n s = Inr m \<longleftrightarrow>
     list_all is_digit s \<and> foldl (\<lambda>n c. n * 10 + (of_char c - 48)) n s \<le> 65535
     \<and> m = foldl (\<lambda>n c. n * 10 + (of_char c - 48)) n s \<or> (s = [] \<and> m = n)"
proof (induction s arbitrary: n)
  case Nil
  show ?case by auto
next
  case (Cons c cs)
  let ?n1 = "n * 10 + (of_char c - 48)"
  show ?case
  proof (cases "is_digit c \<and> ?n1 \<le> 65535")
    case True
    then show ?thesis using Cons.IH [of ?n1] by (auto simp: Let_def)
  next
    case False
    have "\<not> ?n1 \<le> 65535 \<Longrightarrow> \<not> foldl (\<lambda>n c. n * 10 + (of_char c - 48)) ?n1 cs \<le> 65535"
      using foldl_decimal_ge [of ?n1 cs] by linarith
    with False show ?thesis by (auto simp: Let_def)
  qed
qed

lemma ParseUint_10_16_error_iff:
  "(\<exists>e. ParseUint_10_16 port = Inl e) \<longleftrightarrow> \<not> parses_as_uint16 port"
proof (cases "port = []")
  case True
  then show ?thesis by (simp add: ParseUint_10_16_def parses_as_uint16_def)
next
  case False
  have "(\<exists>e. ParseUint_10_16 port = Inl e) \<longleftrightarrow> \<not> (\<exists>m. ParseUint_digits 0 port = Inr m)"
    using False by (cases "ParseUint_digits 0 port") (simp_all add: ParseUint_10_16_def)
  also have "\<dots> \<longleftrightarrow> \<not> (list_all is_digit port \<and> decimal port \<le> 65535)"
    using False by (simp add: ParseUint_digits_Inr_iff decimal_def)
  finally show ?thesis using False by (simp add: parses_as_uint16_def)
qed

lemma ParseUint_10_16_value:
  assumes "ParseUint_10_16 port = Inr p"
  shows "p = of_nat (decimal port)"
proof (cases "ParseUint_digits 0 port")
  case (Inl e)
  with assms show ?thesis by (simp add: ParseUint_10_16_def split: if_splits)
next
  case (Inr m)
  then have "m = decimal port"
    unfolding ParseUint_digits_Inr_iff decimal_def by auto
  with assms Inr show ?thesis by (simp add: ParseUint_10_16_def split: if_splits)
qed

section \<open>The claim about the dial functions\<close>

text \<open>
  Claim C10. In the dial functions of \<open>TestProxy\<close> and of \<open>queryIPLocation\<close>, when the
  address splits into host and port and the port does not parse as an unsigned 16-bit
  integer, the parse error is dropped and the proxy's \<open>DialContext\<close> is called with
  \<open>DstPort = 0\<close>; when the port parses, it is called with that port. The dial function
  returns an error of its own only when the address does not split; in every other case
  its result is the result of the proxy's \<open>DialContext\<close>.
\<close>

theorem dial_ignores_port_parse_error:
  fixes proxy_DialContext :: "Metadata \<Rightarrow> error + 'conn"
  shows
  "(\<forall>host port. SplitHostPort addr = Inr (host, port) \<and> \<not> parses_as_uint16 port \<longrightarrow>
       queryIPLocation_DialContext SplitHostPort proxy_DialContext addr
         = proxy_DialContext \<lparr>Host = host, DstPort = 0\<rparr>
     \<and> TestProxy_DialContext SplitHostPort proxy_DialContext addr
         = proxy_DialContext \<lparr>Host = host, DstPort = 0\<rparr>)
   \<and> (\<forall>host port. SplitHostPort addr = Inr (host, port) \<and> parses_as_uint16 port \<longrightarrow>
       queryIPLocation_DialContext SplitHostPort proxy_DialContext addr
         = proxy_DialContext \<lparr>Host = host, DstPort = of_nat (decimal port)\<rparr>
     \<and> TestProxy_DialContext SplitHostPort proxy_DialContext addr
         = proxy_DialContext \<lparr>Host = host, DstPort = of_nat (decimal port)\<rparr>)
   \<and> (\<forall>e. SplitHostPort addr = Inl e \<longrightarrow>
       queryIPLocation_DialContext SplitHostPort proxy_DialContext addr = Inl e
     \<and> TestProxy_DialContext SplitHostPort proxy_DialContext addr = Inl e)"
proof (intro conjI allI impI)
  fix host port
  assume h: "SplitHostPort addr = Inr (host, port) \<and> \<not> parses_as_uint16 port"
  then obtain e where e: "ParseUint_10_16 port = Inl e"
    using ParseUint_10_16_error_iff [of port] by blast
  from h e show "queryIPLocation_DialContext SplitHostPort proxy_DialContext addr
         = proxy_DialContext \<lparr>Host = host, DstPort = 0\<rparr>"
    by (simp add: queryIPLocation_DialContext_def)
  from h e show "TestProxy_DialContext SplitHostPort proxy_DialContext addr
         = proxy_DialContext \<lparr>Host = host, DstPort = 0\<rparr>"
    by (simp add: TestProxy_DialContext_def)
next
  fix host port
  assume h: "SplitHostPort addr = Inr (host, port) \<and> parses_as_uint16 port"
  then have "\<not> (\<exists>e. ParseUint_10_16 port = Inl e)"
    using ParseUint_10_16_error_iff [of port] by blast
  then obtain p where p: "ParseUint_10_16 port = Inr p"
    by (cases "ParseUint_10_16 port") auto
  then have pv: "p = of_nat (decimal port)" by (rule ParseUint_10_16_value)
  have uc: "(ucast (of_nat (decimal port) :: uint64) :: uint16) = of_nat (decimal port)"
    by (rule bit_word_eqI) (auto simp: bit_simps)
  from h p pv uc show "queryIPLocation_DialContext SplitHostPort proxy_DialContext addr
         = proxy_DialContext \<lparr>Host = host, DstPort = of_nat (decimal port)\<rparr>"
    by (simp add: queryIPLocation_DialContext_def)
  from h p pv uc show "TestProxy_DialContext SplitHostPort proxy_DialContext addr
         = proxy_DialContext \<lparr>Host = host, DstPort = of_nat (decimal port)\<rparr>"
    by (simp add: TestProxy_DialContext_def)
next
  fix e assume "SplitHostPort addr = Inl e"
  then show "queryIPLocation_DialContext SplitHostPort proxy_DialContext addr = Inl e"
    and "TestProxy_DialContext SplitHostPort proxy_DialContext addr = Inl e"
    by (simp_all add: queryIPLocation_DialContext_def TestProxy_DialContext_def)
qed

theorem dial_ignores_port_parse_error_witness:
  "queryIPLocation_DialContext split_example Inr ''ipinfo.io:http''
     = (Inr \<lparr>Host = ''ipinfo.io'', DstPort = 0\<rparr> :: error + Metadata)
   \<and> TestProxy_DialContext split_example Inr ''ipinfo.io:http''
     = (Inr \<lparr>Host = ''ipinfo.io'', DstPort = 0\<rparr> :: error + Metadata)
   \<and> TestProxy_DialContext split_example Inr ''ipinfo.io:65536''
     = (Inr \<lparr>Host = ''ipinfo.io'', DstPort = 0\<rparr> :: error + Metadata)
   \<and> TestProxy_DialContext split_example Inr ''ipinfo.io:80''
     = (Inr \<lparr>Host = ''ipinfo.io'', DstPort = 80\<rparr> :: error + Metadata)
   \<and> TestProxy_DialContext split_example (Inr :: Metadata \<Rightarrow> error + Metadata) ''ipinfo.io''
     = Inl (Err ''missing port in address'')"
proof -
  have a: "split_example ''ipinfo.io:http'' = Inr (''ipinfo.io'', ''http'') \<and> \<not> parses_as_uint16 ''http''"
    by (simp add: split_example_def parses_as_uint16_def is_digit_def)
  have b: "split_example ''ipinfo.io:65536'' = Inr (''ipinfo.io'', ''65536'') \<and> \<not> parses_as_uint16 ''65536''"
    by (simp add: split_example_def parses_as_uint16_def is_digit_def decimal_def)
  have c: "split_example ''ipinfo.io:80'' = Inr (''ipinfo.io'', ''80'') \<and> parses_as_uint16 ''80''"
    by (simp add: split_example_def parses_as_uint16_def is_digit_def decimal_def)
  have d: "split_example ''ipinfo.io'' = Inl (Err ''missing port in address'')"
    by (simp add: split_example_def)
  have v: "of_nat (decimal ''80'') = (80 :: uint16)"
    by (simp add: decimal_def)
  note i1 = dial_ignores_port_parse_error [of split_example "''ipinfo.io:http''" "Inr :: Metadata \<Rightarrow> error + Metadata"]
  note i2 = dial_ignores_port_parse_error [of split_example "''ipinfo.io:65536''" "Inr :: Metadata \<Rightarrow> error + Metadata"]
  note i3 = dial_ignores_port_parse_error [of split_example "''ipinfo.io:80''" "Inr :: Metadata \<Rightarrow> error + Metadata"]
  note i4 = dial_ignores_port_parse_error [of split_example "''ipinfo.io''" "Inr :: Metadata \<Rightarrow> error + Metadata"]
  from i1 a have 1: "queryIPLocation_DialContext split_example Inr ''ipinfo.io:http''
        = (Inr \<lparr>Host = ''ipinfo.io'', DstPort = 0\<rparr> :: error + Metadata)
     \<and> TestProxy_DialContext split_example Inr ''ipinfo.io:http''
        = (Inr \<lparr>Host = ''ipinfo.io'', DstPort = 0\<rparr> :: error + Metadata)"
    by blast
  from i2 b have 2: "TestProxy_DialContext split_example Inr ''ipinfo.io:65536''
        = (Inr \<lparr>Host = ''ipinfo.io'', DstPort = 0\<rparr> :: error + Metadata)"
    by blast
  from i3 c have "TestProxy_DialContext split_example Inr ''ipinfo.io:80''
        = (Inr \<lparr>Host = ''ipinfo.io'', DstPort = of_nat (decimal ''80'')\<rparr> :: error + Metadata)"
    by blast
  then have 3: "TestProxy_DialContext split_example Inr ''ipinfo.io:80''
        = (Inr \<lparr>Host = ''ipinfo.io'', DstPort = 80\<rparr> :: error + Metadata)"
    by (simp only: v)
  from i4 d have 4: "TestProxy_DialContext split_example (Inr :: Metadata \<Rightarrow> error + Metadata) ''ipinfo.io''
        = Inl (Err ''missing port in address'')"
    by blast
  from 1 2 3 4 show ?thesis by blast
qed

section \<open>Lemmas about the worker and the fan-out\<close>

lemma TestProxy_GetError:
  "proxy sz t = GetError \<Longrightarrow>
     TestProxy name proxy sz t =
       (\<lparr>Name = name, Bandwidth = Finite (- 1), TTFB = - 1, CountryCode = [], IP = []\<rparr>, 0)"
  by (simp add: TestProxy_def)

lemma TestProxy_bad_response:
  "proxy sz t = GetResponse st ttfb wr ce fin \<Longrightarrow> 100 <s st - 200 \<or> wr = 0 \<Longrightarrow>
     TestProxy name proxy sz t =
       (\<lparr>Name = name, Bandwidth = Finite (- 1), TTFB = - 1, CountryCode = [], IP = []\<rparr>, 0)"
  by (auto simp: TestProxy_def)

lemma TestProxy_good_response:
  "proxy sz t = GetResponse st ttfb wr ce fin \<Longrightarrow> \<not> 100 <s st - 200 \<Longrightarrow> wr \<noteq> 0 \<Longrightarrow>
     TestProxy name proxy sz t =
       (\<lparr>Name = name, Bandwidth = fdiv (float64_of_int64 wr) (Seconds (fin - ttfb)),
         TTFB = ttfb, CountryCode = [], IP = []\<rparr>, wr)"
  by (simp add: TestProxy_def)

lemma TestProxy_zero_iff:
  "snd (TestProxy name proxy sz t) = 0 \<longleftrightarrow>
     proxy sz t = GetError
     \<or> (\<exists>st ttfb wr ce fin. proxy sz t = GetResponse st ttfb wr ce fin \<and> (100 <s st - 200 \<or> wr = 0))"
  by (cases "proxy sz t") (auto simp: TestProxy_def)

lemma goroutine_requests:
  "requests (goroutine name w sz t i s) = requests s @ [(i, sz)]"
  by (simp add: goroutine_def Let_def split: prod.splits)

lemma goroutine_downloaded:
  "downloaded (goroutine name w sz t i s) = downloaded s + snd (TestProxy name (network w i) sz t)"
  by (simp add: goroutine_def Let_def split: prod.splits)

lemma goroutine_totalTTFB:
  "totalTTFB (goroutine name w sz t i s) =
     totalTTFB s + (if snd (TestProxy name (network w i) sz t) \<noteq> 0
                    then TTFB (fst (TestProxy name (network w i) sz t)) else 0)"
  by (simp add: goroutine_def Let_def split: prod.splits)

lemma fold_goroutine_requests:
  "requests (fold (goroutine name w sz t) order s) = requests s @ map (\<lambda>i. (i, sz)) order"
  by (induction order arbitrary: s) (simp_all add: goroutine_requests)

lemma fold_goroutine_downloaded:
  "downloaded (fold (goroutine name w sz t) order s) =
     downloaded s + sum_list (map (\<lambda>i. snd (TestProxy name (network w i) sz t)) order)"
  by (induction order arbitrary: s) (simp_all add: goroutine_downloaded add.assoc)

lemma fold_goroutine_totalTTFB:
  "totalTTFB (fold (goroutine name w sz t) order s) =
     totalTTFB s + sum_list (map (\<lambda>i. TTFB (fst (TestProxy name (network w i) sz t)))
                       (filter (\<lambda>i. snd (TestProxy name (network w i) sz t) \<noteq> 0) order))"
  by (induction order arbitrary: s) (simp_all add: goroutine_totalTTFB add.assoc)

lemma fanout_requests:
  "requests (fanout name w sz t order) = map (\<lambda>i. (i, sz)) order"
  by (simp add: fanout_def fold_goroutine_requests)

lemma fanout_downloaded:
  "downloaded (fanout name w sz t order) =
     sum_list (map (\<lambda>i. snd (TestProxy name (network w i) sz t)) order)"
  by (simp add: fanout_def fold_goroutine_downloaded)

lemma fanout_totalTTFB:
  "totalTTFB (fanout name w sz t order) =
     sum_list (map (\<lambda>i. TTFB (fst (TestProxy name (network w i) sz t)))
                (filter (\<lambda>i. snd (TestProxy name (network w i) sz t) \<noteq> 0) order))"
  by (simp add: fanout_def fold_goroutine_totalTTFB)

text \<open>The sums do not depend on the order in which the goroutines finish.\<close>

lemma fanout_order_irrelevant:
  assumes "mset order = mset order'"
  shows "downloaded (fanout name w sz t order) = downloaded (fanout name w sz t order')"
    and "totalTTFB (fanout name w sz t order) = totalTTFB (fanout name w sz t order')"
proof -
  have "sum_list (map f order) = sum_list (map f order')" for f :: "nat \<Rightarrow> 64 word"
    using assms by (metis mset_map sum_mset_sum_list)
  then show "downloaded (fanout name w sz t order) = downloaded (fanout name w sz t order')"
    by (simp add: fanout_downloaded)
  have "mset (filter P order) = mset (filter P order')" for P
    using assms by (metis mset_filter)
  then have "sum_list (map f (filter P order)) = sum_list (map f (filter P order'))"
    for f :: "nat \<Rightarrow> 64 word" and P
    by (metis mset_map sum_mset_sum_list)
  then show "totalTTFB (fanout name w sz t order) = totalTTFB (fanout name w sz t order')"
    by (simp add: fanout_totalTTFB)
qed

lemma TestProxyConcurrent_TTFB:
  "TTFB (fst (TestProxyConcurrent name w ds t cc tokens)) =
     go_div (totalTTFB (fanout name w (go_div ds (clamped cc)) t [0 ..< nat (sint (clamped cc))]))
       (clamped cc)"
  by (simp add: TestProxyConcurrent_def Let_def split: prod.splits)

lemma TestProxyConcurrent_Bandwidth:
  "Bandwidth (fst (TestProxyConcurrent name w ds t cc tokens)) =
     fdiv (float64_of_int64
            (downloaded (fanout name w (go_div ds (clamped cc)) t [0 ..< nat (sint (clamped cc))])))
       (Seconds (wall_clock w))"
  by (simp add: TestProxyConcurrent_def Let_def split: prod.splits)

lemma TestProxyConcurrent_chunk_requests:
  "chunk_requests (snd (TestProxyConcurrent name w ds t cc tokens)) =
     map (\<lambda>i. (i, go_div ds (clamped cc))) [0 ..< nat (sint (clamped cc))]"
  by (simp add: TestProxyConcurrent_def Let_def fanout_requests split: prod.splits)

lemma TestProxyConcurrent_geo_calls:
  "geo_calls (snd (TestProxyConcurrent name w ds t cc tokens)) =
     (if fgt (Bandwidth (fst (TestProxyConcurrent name w ds t cc tokens))) epsilon
      then [(t * 2, tokens)] else [])"
  by (simp add: TestProxyConcurrent_def Let_def split: prod.splits)

section \<open>Lemmas about machine arithmetic\<close>

lemma sint_word_of_int_in_range:
  "- (2 ^ 63) \<le> k \<Longrightarrow> k < 2 ^ 63 \<Longrightarrow> sint (word_of_int k :: 64 word) = k"
  by (simp add: sint_sbintrunc' signed_take_bit_int_eq_self)

lemma sdiv_nonneg_pos:
  fixes a b :: int
  assumes "0 \<le> a" and "1 \<le> b"
  shows "a sdiv b = a div b"
proof (cases "a = 0")
  case True
  then show ?thesis by simp
next
  case False
  with assms have "sgn a = 1" "sgn b = 1" "\<bar>a\<bar> = a" "\<bar>b\<bar> = b" by simp_all
  then show ?thesis by (simp add: signed_divide_int_def)
qed

lemma sint_go_div:
  assumes "0 \<le> sint a" and "1 \<le> sint b"
  shows "sint (go_div a b) = sint a div sint b"
proof -
  have "0 \<le> sint a div sint b"
    using assms by (simp add: pos_imp_zdiv_nonneg_iff)
  moreover have "sint a div sint b \<le> sint a"
    using assms zdiv_mono2 [of "sint a" 1 "sint b"] by simp
  moreover have "sint a < 2 ^ 63"
    using sint_lt [of a] by simp
  ultimately have "sint (word_of_int (sint a div sint b) :: 64 word) = sint a div sint b"
    by (intro sint_word_of_int_in_range) linarith+
  then show ?thesis
    using assms by (simp add: go_div_def sdiv_nonneg_pos)
qed

lemma sint_sum_list:
  fixes xs :: "64 word list"
  assumes "\<forall>x\<in>set xs. 0 \<le> sint x" and "(\<Sum>x\<leftarrow>xs. sint x) < 2 ^ 63"
  shows "sint (sum_list xs) = (\<Sum>x\<leftarrow>xs. sint x)"
  using assms
proof (induction xs)
  case Nil
  show ?case by simp
next
  case (Cons x xs)
  have nonneg: "0 \<le> (\<Sum>x\<leftarrow>xs. sint x)"
    using Cons.prems(1) by (intro sum_list_nonneg) auto
  have x0: "0 \<le> sint x" using Cons.prems(1) by simp
  have "(\<Sum>x\<leftarrow>xs. sint x) < 2 ^ 63"
    using Cons.prems(2) x0 by simp
  with Cons have IH: "sint (sum_list xs) = (\<Sum>x\<leftarrow>xs. sint x)" by simp
  have "sint (x + sum_list xs) = signed_take_bit 63 (sint x + sint (sum_list xs))"
    by (simp add: sint_word_ariths)
  also have "\<dots> = sint x + sint (sum_list xs)"
    using Cons.prems(2) x0 nonneg IH by (intro signed_take_bit_int_eq_self) simp_all
  finally show ?case using IH by simp
qed

text \<open>The rounding of \<open>float64\<close> arithmetic.\<close>

lemma round_even_of_int: "round_even (of_int k) = k"
  by (simp add: round_even_def)

lemma round_even_error: "\<bar>of_int (round_even y) - y\<bar> \<le> 1 / 2"
proof -
  have "of_int \<lfloor>y\<rfloor> \<le> y" "y < of_int \<lfloor>y\<rfloor> + 1"
    by linarith+
  then show ?thesis
    by (auto simp: round_even_def Let_def)
qed

lemma round64_zero: "round64 0 = Finite 0"
  by (simp add: round64_def)

lemma round64_relative:
  assumes lo: "1 / 2 ^ 1022 \<le> \<bar>x\<bar>" and hi: "\<bar>x\<bar> \<le> 2 ^ 1023"
  shows "\<exists>y. round64 x = Finite y \<and> \<bar>y - x\<bar> \<le> \<bar>x\<bar> / 2 ^ 53"
proof -
  have x0: "x \<noteq> 0" and ax: "0 < \<bar>x\<bar>"
    using lo by (auto simp: less_le_trans [OF _ lo])
  define e0 where "e0 = \<lfloor>log 2 \<bar>x\<bar>\<rfloor>"
  have e0: "2 powr of_int e0 \<le> \<bar>x\<bar>" "\<bar>x\<bar> < 2 powr (of_int e0 + 1)"
    using floor_log_eq_powr_iff [of "\<bar>x\<bar>" 2 e0] ax by (simp_all add: e0_def)
  have "2 powr (- 1022) \<le> \<bar>x\<bar>"
    using lo by (simp add: powr_minus_divide)
  then have "- 1022 \<le> log 2 \<bar>x\<bar>"
    using ax by (simp add: le_log_iff)
  then have ge: "- 1022 \<le> e0"
    unfolding e0_def by linarith
  define ulp :: real where "ulp = 2 powr of_int (e0 - 52)"
  define m where "m = round_even (x / ulp)"
  define y where "y = ulp * of_int m"
  have ulp0: "0 < ulp" by (simp add: ulp_def)
  have ulp: "ulp = 2 powr of_int e0 / 2 ^ 52"
    by (simp add: ulp_def powr_diff)
  have "\<bar>of_int m - x / ulp\<bar> \<le> 1 / 2"
    unfolding m_def by (rule round_even_error)
  then have "\<bar>of_int m - x / ulp\<bar> * ulp \<le> 1 / 2 * ulp"
    using ulp0 by (intro mult_right_mono) simp_all
  moreover have "\<bar>of_int m - x / ulp\<bar> * ulp = \<bar>y - x\<bar>"
  proof -
    have "\<bar>of_int m - x / ulp\<bar> * ulp = \<bar>(of_int m - x / ulp) * ulp\<bar>"
      using ulp0 by (simp add: abs_mult)
    also have "(of_int m - x / ulp) * ulp = y - x"
      using ulp0 by (simp add: y_def field_simps)
    finally show ?thesis .
  qed
  ultimately have "\<bar>y - x\<bar> \<le> ulp / 2" by simp
  also have "\<dots> = 2 powr of_int e0 / 2 ^ 53"
    by (simp add: ulp)
  also have "\<dots> \<le> \<bar>x\<bar> / 2 ^ 53"
    using e0(1) by (simp add: divide_right_mono)
  finally have err: "\<bar>y - x\<bar> \<le> \<bar>x\<bar> / 2 ^ 53" .
  have "\<bar>y\<bar> \<le> \<bar>x\<bar> + \<bar>y - x\<bar>" by linarith
  also have "\<dots> \<le> \<bar>x\<bar> + \<bar>x\<bar> / 2 ^ 53" using err by simp
  also have "\<dots> < \<bar>x\<bar> * 2" using ax by simp
  also have "\<dots> \<le> 2 ^ 1023 * 2" using hi by simp
  finally have "\<not> 2 ^ 1024 \<le> \<bar>y\<bar>" by simp
  moreover have "max \<lfloor>log 2 \<bar>x\<bar>\<rfloor> (- 1022) = e0"
    using ge by (simp add: e0_def)
  ultimately have "round64 x = Finite y"
    using x0 by (simp add: round64_def Let_def y_def m_def ulp_def)
  with err show ?thesis by blast
qed

lemma round64_of_int:
  assumes "\<bar>k\<bar> < 2 ^ 53"
  shows "round64 (of_int k) = Finite (of_int k)"
proof (cases "k = 0")
  case True
  then show ?thesis by (simp add: round64_zero)
next
  case False
  define x :: real where "x = of_int k"
  have x0: "x \<noteq> 0" using False by (simp add: x_def)
  have ax: "1 \<le> \<bar>x\<bar>" "\<bar>x\<bar> < 2 ^ 53"
  proof -
    have "1 \<le> \<bar>k\<bar>" using False by simp
    then have "real_of_int 1 \<le> real_of_int \<bar>k\<bar>" by (simp only: of_int_le_iff)
    then show "1 \<le> \<bar>x\<bar>" by (simp add: x_def)
    have "real_of_int \<bar>k\<bar> < real_of_int (2 ^ 53)" using assms by (simp only: of_int_less_iff)
    then show "\<bar>x\<bar> < 2 ^ 53" by (simp add: x_def)
  qed
  define e0 where "e0 = \<lfloor>log 2 \<bar>x\<bar>\<rfloor>"
  have "0 \<le> log 2 \<bar>x\<bar>" using ax(1) by simp
  then have e_lo: "0 \<le> e0" unfolding e0_def by simp
  have "\<bar>x\<bar> < 2 powr 53" using ax(2) by simp
  then have "log 2 \<bar>x\<bar> < 53" using ax(1) by (simp add: log_less_iff)
  then have e_hi: "e0 \<le> 52" unfolding e0_def by linarith
  define n where "n = nat (52 - e0)"
  have n: "of_int (e0 - 52) = - real n"
    using e_hi by (simp add: n_def)
  define ulp :: real where "ulp = 2 powr of_int (e0 - 52)"
  have ulp: "ulp = 1 / 2 ^ n"
    unfolding ulp_def n by (simp add: powr_minus_divide powr_realpow)
  have "x / ulp = of_int (k * 2 ^ n)"
    by (simp add: ulp x_def)
  then have "round_even (x / ulp) = k * 2 ^ n"
    by (simp only: round_even_of_int)
  then have y: "ulp * of_int (round_even (x / ulp)) = x"
    by (simp add: ulp x_def)
  have "\<bar>x\<bar> < 2 ^ 1024"
    using ax(2) by (rule less_trans) simp
  then have "\<not> 2 ^ 1024 \<le> \<bar>x\<bar>" by simp
  moreover have "max \<lfloor>log 2 \<bar>x\<bar>\<rfloor> (- 1022) = e0"
    using e_lo by (simp add: e0_def)
  ultimately have "round64 x = Finite x"
    using x0 y by (simp add: round64_def Let_def ulp_def)
  then show ?thesis by (simp add: x_def)
qed

lemma round64_close:
  assumes "1 / 2 ^ 100 \<le> \<bar>x\<bar>" and "\<bar>x\<bar> \<le> 2 ^ 100"
  shows "\<exists>y. round64 x = Finite y \<and> \<bar>y - x\<bar> \<le> \<bar>x\<bar> / 10 ^ 15"
proof -
  have "(1::real) / 2 ^ 1022 \<le> 1 / 2 ^ 100"
    by (intro divide_left_mono power_increasing) simp_all
  with assms(1) have lo: "1 / 2 ^ 1022 \<le> \<bar>x\<bar>" by linarith
  have "(2::real) ^ 100 \<le> 2 ^ 1023"
    by (intro power_increasing) simp_all
  with assms(2) have hi: "\<bar>x\<bar> \<le> 2 ^ 1023" by linarith
  from round64_relative [OF lo hi] obtain y
    where y: "round64 x = Finite y" "\<bar>y - x\<bar> \<le> \<bar>x\<bar> / 2 ^ 53"
    by blast
  have "\<bar>x\<bar> / 2 ^ 53 \<le> \<bar>x\<bar> / 10 ^ 15"
    by (intro divide_left_mono) simp_all
  with y show ?thesis by (meson order_trans)
qed

lemma round64_numeral: "round64 1000000000 = Finite 1000000000"
  using round64_of_int [of 1000000000] by simp

lemma sdiv_smod_parts:
  fixes D :: int
  assumes "\<bar>D\<bar> \<le> 2 ^ 63"
  shows "real_of_int (D sdiv 1000000000) + real_of_int (D smod 1000000000) / 1000000000
           = real_of_int D / 1000000000"
    and "\<bar>D sdiv 1000000000\<bar> < 2 ^ 53"
    and "\<bar>D smod 1000000000\<bar> < 1000000000"
    and "0 \<le> (D sdiv 1000000000) * (D smod 1000000000)"
proof -
  let ?b = "1000000000 :: int"
  have "D sdiv ?b * ?b + D smod ?b = D"
    by (rule sdiv_mult_smod_eq)
  then have "real_of_int (D sdiv ?b * ?b + D smod ?b) = real_of_int D"
    by simp
  then have "real_of_int (D sdiv ?b) * 1000000000 + real_of_int (D smod ?b) = real_of_int D"
    by simp
  then show "real_of_int (D sdiv ?b) + real_of_int (D smod ?b) / 1000000000
               = real_of_int D / 1000000000"
    by (simp add: field_simps)
  have q: "D sdiv ?b = sgn D * (\<bar>D\<bar> div ?b)"
    by (simp add: signed_divide_int_def)
  have r: "D smod ?b = sgn D * (\<bar>D\<bar> mod ?b)"
    by (simp add: smod_int_alt_def)
  have dq: "0 \<le> \<bar>D\<bar> div ?b" "\<bar>D\<bar> div ?b < 2 ^ 53"
    using assms by simp_all
  have dr: "0 \<le> \<bar>D\<bar> mod ?b" "\<bar>D\<bar> mod ?b < ?b"
    by simp_all
  have "\<bar>D sdiv ?b\<bar> = \<bar>sgn D\<bar> * (\<bar>D\<bar> div ?b)"
    unfolding q using dq(1) by (simp add: abs_mult)
  also have "\<dots> \<le> \<bar>D\<bar> div ?b"
    using dq(1) by (cases "D = 0") (simp_all add: abs_sgn_eq)
  finally show "\<bar>D sdiv ?b\<bar> < 2 ^ 53" using dq(2) by linarith
  have "\<bar>D smod ?b\<bar> = \<bar>sgn D\<bar> * (\<bar>D\<bar> mod ?b)"
    unfolding r using dr(1) by (simp add: abs_mult)
  also have "\<dots> \<le> \<bar>D\<bar> mod ?b"
    using dr(1) by (cases "D = 0") (simp_all add: abs_sgn_eq)
  finally show "\<bar>D smod ?b\<bar> < 1000000000" using dr(2) by linarith
  have "(D sdiv ?b) * (D smod ?b) = (sgn D * sgn D) * ((\<bar>D\<bar> div ?b) * (\<bar>D\<bar> mod ?b))"
    unfolding q r by (simp add: algebra_simps)
  moreover have "0 \<le> sgn D * sgn D" by simp
  ultimately show "0 \<le> (D sdiv ?b) * (D smod ?b)"
    using dq(1) dr(1) by (simp add: zero_le_mult_iff)
qed

lemma abs_sint_le: "\<bar>sint (d :: 64 word)\<bar> \<le> 2 ^ 63"
  using sint_lt [of d] sint_ge [of d] by simp

lemma Seconds_zero: "Seconds 0 = Finite 0"
  by (simp add: Seconds_def round64_zero round64_numeral)

lemma Seconds_close:
  assumes "sint d \<noteq> 0"
  shows "\<exists>s. Seconds d = Finite s
           \<and> \<bar>s - real_of_int (sint d) / 1000000000\<bar>
                \<le> \<bar>real_of_int (sint d) / 1000000000\<bar> * (3 / 10 ^ 15)"
proof -
  define D where "D = sint d"
  define sec where "sec = D sdiv 1000000000"
  define nsec where "nsec = D smod 1000000000"
  define X :: real where "X = real_of_int D / 1000000000"
  define \<rho> :: real where "\<rho> = real_of_int nsec / 1000000000"
  have D: "\<bar>D\<bar> \<le> 2 ^ 63" unfolding D_def by (rule abs_sint_le)
  note parts = sdiv_smod_parts [OF D, folded sec_def nsec_def]
  have sum: "real_of_int sec + \<rho> = X"
    using parts(1) by (simp add: \<rho>_def X_def)
  have rsec: "round64 (real_of_int sec) = Finite (real_of_int sec)"
    using parts(2) by (rule round64_of_int)
  have "\<bar>nsec\<bar> < 2 ^ 53" using parts(3) by simp
  then have rnsec: "round64 (real_of_int nsec) = Finite (real_of_int nsec)"
    by (rule round64_of_int)
  have S: "Seconds d = fadd (Finite (real_of_int sec)) (round64 \<rho>)"
    by (simp add: Seconds_def Let_def rsec rnsec round64_numeral \<rho>_def
        D_def [symmetric] sec_def [symmetric] nsec_def [symmetric])
  have same: "0 \<le> real_of_int sec * \<rho>"
  proof -
    have "0 \<le> real_of_int (sec * nsec)" using parts(4) by (simp only: of_int_0_le_iff)
    then show ?thesis by (simp add: \<rho>_def zero_le_mult_iff zero_le_divide_iff)
  qed
  have rhoX: "\<bar>\<rho>\<bar> \<le> \<bar>X\<bar>"
  proof -
    have "\<bar>real_of_int sec + \<rho>\<bar> = \<bar>real_of_int sec\<bar> + \<bar>\<rho>\<bar>"
      using same by (auto simp: zero_le_mult_iff abs_if)
    then show ?thesis using sum by simp
  qed
  have Xhi: "\<bar>X\<bar> \<le> 2 ^ 34"
  proof -
    have "\<bar>real_of_int D\<bar> \<le> 2 ^ 63"
    proof -
      have "real_of_int \<bar>D\<bar> \<le> real_of_int (2 ^ 63)"
        using D by (simp only: of_int_le_iff)
      then show ?thesis by simp
    qed
    then have "\<bar>X\<bar> \<le> 2 ^ 63 / 1000000000"
      by (simp add: X_def divide_right_mono)
    also have "\<dots> \<le> (2::real) ^ 34" by simp
    finally show ?thesis .
  qed
  have Xlo: "1 / 10 ^ 9 \<le> \<bar>X\<bar>"
  proof -
    have "1 \<le> \<bar>D\<bar>" using assms by (simp add: D_def)
    then have "real_of_int 1 \<le> real_of_int \<bar>D\<bar>" by (simp only: of_int_le_iff)
    then have "1 \<le> \<bar>real_of_int D\<bar>" by simp
    then show ?thesis by (simp add: X_def divide_right_mono)
  qed
  show ?thesis
  proof (cases "nsec = 0")
    case True
    then have "\<rho> = 0" by (simp add: \<rho>_def)
    with sum have "real_of_int sec = X" by simp
    with S \<open>\<rho> = 0\<close> rsec have "Seconds d = Finite X"
      by (simp add: round64_zero)
    moreover have "\<bar>X - X\<bar> \<le> \<bar>X\<bar> * (3 / 10 ^ 15)"
      by simp
    ultimately show ?thesis
      unfolding X_def D_def by blast
  next
    case False
    have rho_lo: "1 / 10 ^ 9 \<le> \<bar>\<rho>\<bar>"
    proof -
      have "1 \<le> \<bar>nsec\<bar>" using False by simp
      then have "real_of_int 1 \<le> real_of_int \<bar>nsec\<bar>" by (simp only: of_int_le_iff)
      then have "1 \<le> \<bar>real_of_int nsec\<bar>" by simp
      then show ?thesis by (simp add: \<rho>_def divide_right_mono)
    qed
    have rho_hi: "\<bar>\<rho>\<bar> \<le> 1"
    proof -
      have "real_of_int \<bar>nsec\<bar> \<le> real_of_int 1000000000"
        using parts(3) by simp
      then show ?thesis by (simp add: \<rho>_def)
    qed
    have "1 / 2 ^ 100 \<le> \<bar>\<rho>\<bar>"
      using rho_lo by (rule order_trans [rotated]) simp
    moreover have "\<bar>\<rho>\<bar> \<le> 2 ^ 100"
      using rho_hi by (rule order_trans) simp
    ultimately obtain r where r: "round64 \<rho> = Finite r" "\<bar>r - \<rho>\<bar> \<le> \<bar>\<rho>\<bar> / 10 ^ 15"
      using round64_close by blast
    define x' where "x' = real_of_int sec + r"
    have e1: "\<bar>x' - X\<bar> \<le> \<bar>X\<bar> / 10 ^ 15"
    proof -
      have "x' - X = r - \<rho>" using sum by (simp add: x'_def)
      with r(2) have "\<bar>x' - X\<bar> \<le> \<bar>\<rho>\<bar> / 10 ^ 15" by simp
      also have "\<dots> \<le> \<bar>X\<bar> / 10 ^ 15" using rhoX by (simp add: divide_right_mono)
      finally show ?thesis .
    qed
    have "\<bar>X\<bar> / 10 ^ 15 \<le> \<bar>X\<bar> / 2"
      by (intro divide_left_mono) simp_all
    with e1 have half: "\<bar>x' - X\<bar> \<le> \<bar>X\<bar> / 2" by linarith
    have x'lo: "\<bar>X\<bar> / 2 \<le> \<bar>x'\<bar>" and x'hi: "\<bar>x'\<bar> \<le> \<bar>X\<bar> * 2"
      using half by linarith+
    have "(1::real) / 2 ^ 100 \<le> (1 / 10 ^ 9) / 2" by simp
    also have "\<dots> \<le> \<bar>X\<bar> / 2" using Xlo by (simp only: divide_right_mono zero_le_numeral)
    finally have "1 / 2 ^ 100 \<le> \<bar>X\<bar> / 2" .
    with x'lo have lo: "1 / 2 ^ 100 \<le> \<bar>x'\<bar>" by linarith
    have "\<bar>X\<bar> * 2 \<le> 2 ^ 34 * 2" using Xhi by simp
    also have "\<dots> \<le> (2::real) ^ 100" by simp
    finally have "\<bar>X\<bar> * 2 \<le> 2 ^ 100" .
    with x'hi have hi: "\<bar>x'\<bar> \<le> 2 ^ 100" by linarith
    from round64_close [OF lo hi] obtain s
      where s: "round64 x' = Finite s" "\<bar>s - x'\<bar> \<le> \<bar>x'\<bar> / 10 ^ 15"
      by blast
    have "Seconds d = Finite s"
      using S r(1) s(1) by (simp add: x'_def)
    moreover have "\<bar>s - X\<bar> \<le> \<bar>X\<bar> * (3 / 10 ^ 15)"
    proof -
      have "\<bar>s - X\<bar> \<le> \<bar>s - x'\<bar> + \<bar>x' - X\<bar>" by linarith
      also have "\<dots> \<le> \<bar>x'\<bar> / 10 ^ 15 + \<bar>X\<bar> / 10 ^ 15"
        using s(2) e1 by linarith
      also have "\<dots> \<le> (\<bar>X\<bar> * 2) / 10 ^ 15 + \<bar>X\<bar> / 10 ^ 15"
        using x'hi by (simp add: divide_right_mono)
      also have "\<dots> = \<bar>X\<bar> * (3 / 10 ^ 15)" by simp
      finally show ?thesis .
    qed
    ultimately show ?thesis
      unfolding X_def D_def by blast
  qed
qed

lemma close_bounds:
  fixes x y c :: real
  assumes "\<bar>y - x\<bar> \<le> x * c"
  shows "x * (1 - c) \<le> y" and "y \<le> x * (1 + c)"
proof -
  from assms have "y - x \<le> x * c" and "- (y - x) \<le> x * c"
    by (rule abs_le_D1, rule abs_le_D2)
  then show "x * (1 - c) \<le> y" and "y \<le> x * (1 + c)"
    by (simp_all add: algebra_simps)
qed

lemma close_bounds_div:
  fixes x y :: real
  assumes "\<bar>y - x\<bar> \<le> \<bar>x\<bar> / 10 ^ 15" and "0 < x"
  shows "x * (1 - 1 / 10 ^ 15) \<le> y" and "y \<le> x * (1 + 1 / 10 ^ 15)"
proof -
  from assms have "\<bar>y - x\<bar> \<le> x * (1 / 10 ^ 15)" by simp
  then show "x * (1 - 1 / 10 ^ 15) \<le> y" and "y \<le> x * (1 + 1 / 10 ^ 15)"
    by (rule close_bounds)+
qed

lemma gate_arith_called:
  fixes B X \<beta> s q \<epsilon> :: real
  assumes B: "1 \<le> B" and X: "0 < X"
    and b: "\<bar>\<beta> - B\<bar> \<le> \<bar>B\<bar> / 10 ^ 15"
    and s: "\<bar>s - X\<bar> \<le> X * (3 / 10 ^ 15)"
    and q: "\<bar>q - \<beta> / s\<bar> \<le> \<bar>\<beta> / s\<bar> / 10 ^ 15"
    and e: "\<bar>\<epsilon> - 1 / 10 ^ 9\<bar> \<le> \<bar>1 / 10 ^ 9\<bar> / 10 ^ 15"
    and margin: "X * 1000000001 \<le> 10 ^ 18 * B"
  shows "\<epsilon> < q"
proof -
  note sb = close_bounds [OF s]
  have s0: "0 < s"
  proof -
    have "0 < X * (1 - 3 / 10 ^ 15)" using X by simp
    with sb(1) show ?thesis by linarith
  qed
  have B0: "0 < B" using B by simp
  note bb = close_bounds_div [OF b B0]
  have b0: "0 < \<beta>"
  proof -
    have "0 < B * (1 - 1 / 10 ^ 15)" using B by simp
    with bb(1) show ?thesis by linarith
  qed
  have "(0::real) < 1 / 10 ^ 9" by simp
  note eb = close_bounds_div [OF e this]
  have e0: "0 \<le> \<epsilon>"
  proof -
    have "(0::real) \<le> 1 / 10 ^ 9 * (1 - 1 / 10 ^ 15)" by simp
    with eb(1) show ?thesis by linarith
  qed
  have z0: "0 < \<beta> / s" using b0 s0 by simp
  note qb = close_bounds_div [OF q z0]
  have "\<epsilon> * s \<le> (1 / 10 ^ 9 * (1 + 1 / 10 ^ 15)) * (X * (1 + 3 / 10 ^ 15))"
    using eb(2) sb(2) e0 s0 by (intro mult_mono) simp_all
  also have "\<dots> = X * ((1 + 1 / 10 ^ 15) * (1 + 3 / 10 ^ 15) / 10 ^ 9)"
    by simp
  also have "\<dots> < B * ((1 - 1 / 10 ^ 15) * (1 - 1 / 10 ^ 15))"
    using margin B X by simp
  also have "\<dots> = (B * (1 - 1 / 10 ^ 15)) * (1 - 1 / 10 ^ 15)"
    by simp
  also have "\<dots> \<le> \<beta> * (1 - 1 / 10 ^ 15)"
    using bb(1) by (intro mult_right_mono) simp_all
  finally have "\<epsilon> * s < \<beta> * (1 - 1 / 10 ^ 15)" .
  then have "\<epsilon> < \<beta> * (1 - 1 / 10 ^ 15) / s"
    using s0 by (simp add: pos_less_divide_eq)
  also have "\<dots> = \<beta> / s * (1 - 1 / 10 ^ 15)" by simp
  finally show ?thesis using qb(1) by linarith
qed


lemma epsilon_close:
  "\<exists>\<epsilon>. epsilon = Finite \<epsilon> \<and> \<bar>\<epsilon> - 1 / 10 ^ 9\<bar> \<le> \<bar>1 / 10 ^ 9\<bar> / 10 ^ 15"
proof -
  have "(1::real) / 2 ^ 100 \<le> \<bar>1 / 10 ^ 9\<bar>" and "\<bar>(1::real) / 10 ^ 9\<bar> \<le> 2 ^ 100"
    by simp_all
  from round64_close [OF this] show ?thesis
    by (simp add: epsilon_def)
qed

lemma epsilon_positive: "\<exists>\<epsilon>. epsilon = Finite \<epsilon> \<and> 0 < \<epsilon>"
proof -
  from epsilon_close obtain \<epsilon>
    where e: "epsilon = Finite \<epsilon>" "\<bar>\<epsilon> - 1 / 10 ^ 9\<bar> \<le> \<bar>1 / 10 ^ 9\<bar> / 10 ^ 15"
    by blast
  have "(0::real) < 1 / 10 ^ 9" by simp
  from close_bounds_div(1) [OF e(2) this] have "0 < \<epsilon>"
    by (rule less_le_trans [rotated]) simp
  with e(1) show ?thesis by blast
qed

lemma float64_of_int64_zero: "float64_of_int64 0 = Finite 0"
  by (simp add: float64_of_int64_def round64_zero)

lemma float64_of_int64_close:
  assumes "1 \<le> sint b"
  shows "\<exists>\<beta>. float64_of_int64 b = Finite \<beta>
           \<and> \<bar>\<beta> - real_of_int (sint b)\<bar> \<le> \<bar>real_of_int (sint b)\<bar> / 10 ^ 15"
proof -
  define B :: real where "B = real_of_int (sint b)"
  have "real_of_int 1 \<le> real_of_int (sint b)"
    using assms by (simp only: of_int_le_iff)
  then have B1: "1 \<le> B" by (simp add: B_def)
  have "real_of_int (sint b) \<le> real_of_int (2 ^ 63)"
    using sint_lt [of b] by (simp only: of_int_le_iff) simp
  then have B2: "B \<le> 2 ^ 63" by (simp add: B_def)
  have "(1::real) / 2 ^ 100 \<le> 1" by simp
  with B1 have lo: "1 / 2 ^ 100 \<le> \<bar>B\<bar>" by linarith
  have "(2::real) ^ 63 \<le> 2 ^ 100" by simp
  with B1 B2 have hi: "\<bar>B\<bar> \<le> 2 ^ 100" by linarith
  from round64_close [OF lo hi] show ?thesis
    unfolding float64_of_int64_def B_def .
qed

lemma Seconds_nonzero:
  assumes "d \<noteq> 0"
  shows "\<exists>s. Seconds d = Finite s \<and> s \<noteq> 0"
proof -
  have D: "sint d \<noteq> 0" using assms by (simp add: signed_eq_0_iff)
  define X :: real where "X = real_of_int (sint d) / 1000000000"
  from Seconds_close [OF D] obtain s
    where s: "Seconds d = Finite s" "\<bar>s - X\<bar> \<le> \<bar>X\<bar> * (3 / 10 ^ 15)"
    unfolding X_def by blast
  have "real_of_int (sint d) \<noteq> 0" using D by (simp only: of_int_eq_0_iff) simp
  then have X0: "0 < \<bar>X\<bar>" by (simp add: X_def)
  have "\<bar>X\<bar> * (3 / 10 ^ 15) < \<bar>X\<bar>" using X0 by simp
  with s(2) have "\<bar>s - X\<bar> < \<bar>X\<bar>" by linarith
  then have "s \<noteq> 0" by auto
  with s(1) show ?thesis by blast
qed

lemma bandwidth_of_nothing:
  "fdiv (float64_of_int64 0) (Seconds d) = (if d = 0 then NaN else Finite 0)"
proof (cases "d = 0")
  case True
  then show ?thesis by (simp add: float64_of_int64_zero Seconds_zero)
next
  case False
  from Seconds_nonzero [OF this] obtain s where "Seconds d = Finite s" "s \<noteq> 0" by blast
  with False show ?thesis by (simp add: float64_of_int64_zero round64_zero)
qed


lemma bandwidth_value:
  assumes b: "1 \<le> sint b" and d: "1 \<le> sint d"
  shows "\<exists>\<beta> s q. float64_of_int64 b = Finite \<beta> \<and> Seconds d = Finite s
           \<and> fdiv (float64_of_int64 b) (Seconds d) = Finite q
           \<and> \<bar>\<beta> - real_of_int (sint b)\<bar> \<le> \<bar>real_of_int (sint b)\<bar> / 10 ^ 15
           \<and> \<bar>s - real_of_int (sint d) / 1000000000\<bar>
                \<le> real_of_int (sint d) / 1000000000 * (3 / 10 ^ 15)
           \<and> \<bar>q - \<beta> / s\<bar> \<le> \<bar>\<beta> / s\<bar> / 10 ^ 15"
proof -
  define B :: real where "B = real_of_int (sint b)"
  define X :: real where "X = real_of_int (sint d) / 1000000000"
  have "real_of_int 1 \<le> real_of_int (sint b)" using b by (simp only: of_int_le_iff)
  then have B1: "1 \<le> B" by (simp add: B_def)
  have "real_of_int (sint b) \<le> real_of_int (2 ^ 63)"
    using sint_lt [of b] by (simp only: of_int_le_iff) simp
  then have B2: "B \<le> 2 ^ 63" by (simp add: B_def)
  have "real_of_int 1 \<le> real_of_int (sint d)" using d by (simp only: of_int_le_iff)
  then have "1 / 1000000000 \<le> real_of_int (sint d) / 1000000000"
    by (simp add: divide_right_mono)
  then have X1: "1 / 10 ^ 9 \<le> X" by (simp add: X_def)
  have "real_of_int (sint d) \<le> real_of_int (2 ^ 63)"
    using sint_lt [of d] by (simp only: of_int_le_iff) simp
  then have "real_of_int (sint d) / 1000000000 \<le> 2 ^ 63 / 1000000000"
    by (simp add: divide_right_mono)
  also have "\<dots> \<le> (2::real) ^ 34" by simp
  finally have X2: "X \<le> 2 ^ 34" by (simp add: X_def)
  have X0: "0 < X" using X1 by (rule less_le_trans [rotated]) simp
  from float64_of_int64_close [OF b] obtain \<beta>
    where \<beta>: "float64_of_int64 b = Finite \<beta>" "\<bar>\<beta> - B\<bar> \<le> \<bar>B\<bar> / 10 ^ 15"
    unfolding B_def by blast
  have "sint d \<noteq> 0" using d by simp
  from Seconds_close [OF this] obtain s
    where s: "Seconds d = Finite s" "\<bar>s - X\<bar> \<le> \<bar>X\<bar> * (3 / 10 ^ 15)"
    unfolding X_def by blast
  have s': "\<bar>s - X\<bar> \<le> X * (3 / 10 ^ 15)" using s(2) X0 by simp
  have B0: "0 < B" using B1 by simp
  note bb = close_bounds_div [OF \<beta>(2) B0]
  note sb = close_bounds [OF s']
  have b_lo: "1 / 2 \<le> \<beta>"
  proof -
    have "1 / 2 \<le> B * (1 - 1 / 10 ^ 15)" using B1 by simp
    with bb(1) show ?thesis by linarith
  qed
  have b_hi: "\<beta> \<le> 2 ^ 64"
  proof -
    have "B * (1 + 1 / 10 ^ 15) \<le> 2 ^ 63 * (1 + 1 / 10 ^ 15)"
      using B2 by (intro mult_right_mono) simp_all
    also have "\<dots> \<le> (2::real) ^ 64" by simp
    finally show ?thesis using bb(2) by linarith
  qed
  have s_lo: "1 / (2 * 10 ^ 9) \<le> s"
  proof -
    have "1 / 10 ^ 9 * (1 - 3 / 10 ^ 15) \<le> X * (1 - 3 / 10 ^ 15)"
      using X1 by (intro mult_right_mono) simp_all
    moreover have "(1::real) / (2 * 10 ^ 9) \<le> 1 / 10 ^ 9 * (1 - 3 / 10 ^ 15)" by simp
    ultimately show ?thesis using sb(1) by linarith
  qed
  have s_hi: "s \<le> 2 ^ 35"
  proof -
    have "X * (1 + 3 / 10 ^ 15) \<le> 2 ^ 34 * (1 + 3 / 10 ^ 15)"
      using X2 by (intro mult_right_mono) simp_all
    also have "\<dots> \<le> (2::real) ^ 35" by simp
    finally show ?thesis using sb(2) by linarith
  qed
  have s0: "0 < s" using s_lo by (rule less_le_trans [rotated]) simp
  have z_lo: "(1 / 2) / 2 ^ 35 \<le> \<beta> / s"
    using b_lo s0 s_hi by (intro frac_le) simp_all
  have z_hi: "\<beta> / s \<le> 2 ^ 64 / (1 / (2 * 10 ^ 9))"
    using b_hi b_lo s_lo by (intro frac_le) simp_all
  have "(1::real) / 2 ^ 100 \<le> (1 / 2) / 2 ^ 35" by simp
  with z_lo have lo: "1 / 2 ^ 100 \<le> \<bar>\<beta> / s\<bar>" by linarith
  have "(2::real) ^ 64 / (1 / (2 * 10 ^ 9)) \<le> 2 ^ 100" by simp
  with z_hi have "\<beta> / s \<le> 2 ^ 100" by (rule order_trans)
  moreover have "0 \<le> \<beta> / s" using b_lo s0 by simp
  ultimately have hi: "\<bar>\<beta> / s\<bar> \<le> 2 ^ 100" by simp
  from round64_close [OF lo hi] obtain q
    where q: "round64 (\<beta> / s) = Finite q" "\<bar>q - \<beta> / s\<bar> \<le> \<bar>\<beta> / s\<bar> / 10 ^ 15"
    by blast
  have "fdiv (float64_of_int64 b) (Seconds d) = Finite q"
    using \<beta>(1) s(1) s0 q(1) by simp
  with \<beta> s(1) s' q(2) show ?thesis
    unfolding B_def X_def by blast
qed

lemma bandwidth_called:
  assumes b: "1 \<le> sint b" and d: "0 \<le> sint d"
    and margin: "sint d * 1000000001 \<le> 10 ^ 27 * sint b"
  shows "fgt (fdiv (float64_of_int64 b) (Seconds d)) epsilon"
proof (cases "sint d = 0")
  case True
  then have d0: "d = 0" by (simp add: signed_eq_0_iff)
  from float64_of_int64_close [OF b] obtain \<beta>
    where \<beta>: "float64_of_int64 b = Finite \<beta>"
      "\<bar>\<beta> - real_of_int (sint b)\<bar> \<le> \<bar>real_of_int (sint b)\<bar> / 10 ^ 15"
    by blast
  have "real_of_int 1 \<le> real_of_int (sint b)" using b by (simp only: of_int_le_iff)
  then have B0: "0 < real_of_int (sint b)" by simp
  have "0 < real_of_int (sint b) * (1 - 1 / 10 ^ 15)" using B0 by simp
  with close_bounds_div(1) [OF \<beta>(2) B0] have "0 < \<beta>" by linarith
  moreover from epsilon_positive obtain \<epsilon> where e: "epsilon = Finite \<epsilon>" by blast
  ultimately show ?thesis
    unfolding e using \<beta>(1) d0 by (simp add: Seconds_zero)
next
  case False
  with d have d1: "1 \<le> sint d" by simp
  from bandwidth_value [OF b d1] obtain \<beta> s q
    where v: "fdiv (float64_of_int64 b) (Seconds d) = Finite q"
      "\<bar>\<beta> - real_of_int (sint b)\<bar> \<le> \<bar>real_of_int (sint b)\<bar> / 10 ^ 15"
      "\<bar>s - real_of_int (sint d) / 1000000000\<bar>
          \<le> real_of_int (sint d) / 1000000000 * (3 / 10 ^ 15)"
      "\<bar>q - \<beta> / s\<bar> \<le> \<bar>\<beta> / s\<bar> / 10 ^ 15"
    by blast
  from epsilon_close obtain \<epsilon>
    where e: "epsilon = Finite \<epsilon>" "\<bar>\<epsilon> - 1 / 10 ^ 9\<bar> \<le> \<bar>1 / 10 ^ 9\<bar> / 10 ^ 15"
    by blast
  have B: "1 \<le> real_of_int (sint b)"
  proof -
    have "real_of_int 1 \<le> real_of_int (sint b)" using b by (simp only: of_int_le_iff)
    then show ?thesis by simp
  qed
  have X: "0 < real_of_int (sint d) / 1000000000"
  proof -
    have "real_of_int 0 < real_of_int (sint d)" using d1 by (simp del: of_int_sint)
    then show ?thesis by simp
  qed
  have "real_of_int (sint d * 1000000001) \<le> real_of_int (10 ^ 27 * sint b)"
    using margin by (simp only: of_int_le_iff)
  then have "real_of_int (sint d) * 1000000001 \<le> 10 ^ 27 * real_of_int (sint b)"
    by simp
  then have m: "real_of_int (sint d) / 1000000000 * 1000000001 \<le> 10 ^ 18 * real_of_int (sint b)"
    by simp
  from gate_arith_called [OF B X v(2) v(3) v(4) e(2) m] have "\<epsilon> < q" .
  then show ?thesis unfolding v(1) e(1) by simp
qed


lemma clamped_positive: "1 \<le> sint (clamped cc)"
proof (cases "cc \<le>s 0")
  case True
  then show ?thesis by simp
next
  case False
  then have "0 < sint cc" by (simp add: word_sle_eq)
  with False show ?thesis by simp
qed

section \<open>The claims about the worker and the aggregation\<close>

text \<open>
  Claim C3. For a total size that is not negative, with the concurrency clamped to at
  least 1, every worker is asked for \<open>chunkSize = totalSize / concurrency\<close> bytes (integer
  division) and there are \<open>concurrency\<close> workers; \<open>concurrency * chunkSize\<close>, the sum of
  the sizes asked for, does not exceed the total size: the remainder is dropped.
\<close>

theorem chunk_size_drops_remainder:
  assumes "0 \<le> sint downloadSize"
  shows "(let n = clamped concurrentCount;
              chunkSize = go_div downloadSize n;
              asked = chunk_requests
                        (snd (TestProxyConcurrent name w downloadSize timeout concurrentCount tokens))
          in 1 \<le> sint n
             \<and> asked = map (\<lambda>i. (i, chunkSize)) [0 ..< nat (sint n)]
             \<and> sint chunkSize = sint downloadSize div sint n
             \<and> sint n * sint chunkSize \<le> sint downloadSize
             \<and> (\<Sum>(i, sz) \<leftarrow> asked. sint sz) = sint n * sint chunkSize)"
proof -
  let ?n = "clamped concurrentCount"
  let ?c = "go_div downloadSize ?n"
  have n: "1 \<le> sint ?n" by (rule clamped_positive)
  have asked: "chunk_requests
      (snd (TestProxyConcurrent name w downloadSize timeout concurrentCount tokens))
        = map (\<lambda>i. (i, ?c)) [0 ..< nat (sint ?n)]"
    by (rule TestProxyConcurrent_chunk_requests)
  have c: "sint ?c = sint downloadSize div sint ?n"
    using assms n by (rule sint_go_div)
  have "sint ?n * (sint downloadSize div sint ?n) \<le> sint downloadSize"
    using n pos_mod_sign [of "sint ?n" "sint downloadSize"]
      mult_div_mod_eq [of "sint ?n" "sint downloadSize"]
    by linarith
  then have le: "sint ?n * sint ?c \<le> sint downloadSize"
    by (simp only: c)
  have "(\<Sum>(i, sz) \<leftarrow> map (\<lambda>i. (i, ?c)) [0 ..< nat (sint ?n)]. sint sz)
          = (\<Sum>i \<leftarrow> [0 ..< nat (sint ?n)]. sint ?c)"
    by (simp add: comp_def)
  also have "\<dots> = int (nat (sint ?n)) * sint ?c"
    by (simp add: sum_list_triv)
  also have "\<dots> = sint ?n * sint ?c"
    using n by simp
  finally have total: "(\<Sum>(i, sz) \<leftarrow> map (\<lambda>i. (i, ?c)) [0 ..< nat (sint ?n)]. sint sz)
          = sint ?n * sint ?c" .
  show ?thesis
    unfolding Let_def asked
    using n c le total by (intro conjI) simp_all
qed

theorem chunk_size_drops_remainder_witness:
  "chunk_requests (snd (TestProxyConcurrent ''p'' world_two_of_four 10 5000000000 4 []))
     = [(0, 2), (1, 2), (2, 2), (3, 2)]
   \<and> chunk_requests (snd (TestProxyConcurrent ''p'' world_two_of_four 10 5000000000 0 []))
     = [(0, 10)]
   \<and> chunk_requests (snd (TestProxyConcurrent ''p'' world_two_of_four 10 5000000000 (- 3) []))
     = [(0, 10)]"
proof -
  have ds: "0 \<le> sint (10 :: go_int)" by simp
  have d4: "go_div 10 4 = 2" and d1: "go_div 10 1 = 10"
    by (simp_all add: go_div_def signed_divide_int_def)
  have u4: "[0 ..< 4] = [0, 1, 2, 3 :: nat]"
    by (simp add: upt_rec)
  have u1: "[0 ..< nat (sint (1 :: go_int))] = [0]"
    by simp
  have neg: "(- 3 :: go_int) \<le>s 0" and pos: "\<not> (4 :: go_int) \<le>s 0"
    by (simp_all add: word_sle_eq)
  from chunk_size_drops_remainder [OF ds, of 4 "''p''" world_two_of_four 5000000000 "[]"]
  have 1: "chunk_requests (snd (TestProxyConcurrent ''p'' world_two_of_four 10 5000000000 4 []))
     = [(0, 2), (1, 2), (2, 2), (3, 2)]"
    by (simp add: Let_def pos d4 u4)
  from chunk_size_drops_remainder [OF ds, of 0 "''p''" world_two_of_four 5000000000 "[]"]
  have 2: "chunk_requests (snd (TestProxyConcurrent ''p'' world_two_of_four 10 5000000000 0 []))
     = [(0, 10)]"
    by (simp add: Let_def d1)
  from chunk_size_drops_remainder [OF ds, of "- 3" "''p''" world_two_of_four 5000000000 "[]"]
  have 3: "chunk_requests (snd (TestProxyConcurrent ''p'' world_two_of_four 10 5000000000 (- 3) []))
     = [(0, 10)]"
    by (simp add: Let_def neg d1)
  from 1 2 3 show ?thesis by blast
qed

text \<open>
  Claim C2. With the concurrency clamped to \<open>n\<close>, the \<open>TTFB\<close> of the returned \<open>Result\<close>
  is the sum of the TTFBs of the chunks that transferred at least one byte, divided by
  \<open>n\<close> and not by the number of those chunks, in Go's \<open>int64\<close> arithmetic; where the
  TTFBs are not negative and their sum does not overflow, that is the integer quotient
  of their sum by \<open>n\<close>.
\<close>

theorem ttfb_divided_by_concurrency:
  "(let n = clamped concurrentCount;
        chunk = (\<lambda>i. TestProxy name (network w i) (go_div downloadSize n) timeout);
        contributing = filter (\<lambda>i. snd (chunk i) \<noteq> 0) [0 ..< nat (sint n)];
        result = fst (TestProxyConcurrent name w downloadSize timeout concurrentCount tokens)
    in TTFB result = go_div (\<Sum>i \<leftarrow> contributing. TTFB (fst (chunk i))) n
       \<and> ((\<forall>i \<in> set contributing. 0 \<le> sint (TTFB (fst (chunk i))))
            \<and> (\<Sum>i \<leftarrow> contributing. sint (TTFB (fst (chunk i)))) < 2 ^ 63 \<longrightarrow>
          sint (TTFB result) = (\<Sum>i \<leftarrow> contributing. sint (TTFB (fst (chunk i)))) div sint n))"
proof -
  let ?n = "clamped concurrentCount"
  let ?chunk = "\<lambda>i. TestProxy name (network w i) (go_div downloadSize ?n) timeout"
  let ?contributing = "filter (\<lambda>i. snd (?chunk i) \<noteq> 0) [0 ..< nat (sint ?n)]"
  let ?result = "fst (TestProxyConcurrent name w downloadSize timeout concurrentCount tokens)"
  let ?ttfbs = "map (\<lambda>i. TTFB (fst (?chunk i))) ?contributing"
  have word: "TTFB ?result = go_div (sum_list ?ttfbs) ?n"
    by (simp only: TestProxyConcurrent_TTFB fanout_totalTTFB)
  have int: "sint (TTFB ?result) = (\<Sum>i \<leftarrow> ?contributing. sint (TTFB (fst (?chunk i)))) div sint ?n"
    if nonneg: "\<forall>i \<in> set ?contributing. 0 \<le> sint (TTFB (fst (?chunk i)))"
      and small: "(\<Sum>i \<leftarrow> ?contributing. sint (TTFB (fst (?chunk i)))) < 2 ^ 63"
  proof -
    have eq: "(\<Sum>x \<leftarrow> ?ttfbs. sint x) = (\<Sum>i \<leftarrow> ?contributing. sint (TTFB (fst (?chunk i))))"
      by (simp add: comp_def)
    have "\<forall>x \<in> set ?ttfbs. 0 \<le> sint x"
      using nonneg by auto
    moreover have "(\<Sum>x \<leftarrow> ?ttfbs. sint x) < 2 ^ 63"
      using small by (simp only: eq)
    ultimately have s: "sint (sum_list ?ttfbs) = (\<Sum>x \<leftarrow> ?ttfbs. sint x)"
      by (rule sint_sum_list)
    have "0 \<le> (\<Sum>i \<leftarrow> ?contributing. sint (TTFB (fst (?chunk i))))"
      using nonneg by (intro sum_list_nonneg) auto
    then have "0 \<le> sint (sum_list ?ttfbs)"
      by (simp only: s eq)
    then have "sint (go_div (sum_list ?ttfbs) ?n) = sint (sum_list ?ttfbs) div sint ?n"
      using clamped_positive by (rule sint_go_div)
    then show ?thesis
      by (simp only: word s eq)
  qed
  show ?thesis
    unfolding Let_def using word int by blast
qed

theorem ttfb_divided_by_concurrency_witness:
  "TTFB (fst (TestProxyConcurrent ''p'' world_two_of_four 1000000 5000000000 4 [''a'', ''b'']))
     = 50000000"
proof -
  have pos: "\<not> (4 :: go_int) \<le>s 0" by (simp add: word_sle_eq)
  have u4: "[0 ..< 4] = [0, 1, 2, 3 :: nat]" by (simp add: upt_rec)
  have d: "go_div 1000000 4 = 250000" "go_div 200000000 4 = 50000000"
    by (simp_all add: go_div_def signed_divide_int_def)
  have c0: "TestProxy ''p'' (network world_two_of_four 0) 250000 5000000000
      = (\<lparr>Name = ''p'', Bandwidth = fdiv (float64_of_int64 250000) (Seconds (1000000000 - 100000000)),
          TTFB = 100000000, CountryCode = [], IP = []\<rparr>, 250000)"
    by (rule TestProxy_good_response [where st = 200 and ce = False])
       (simp_all add: world_two_of_four_def network_two_of_four_def word_sless_alt)
  have c2: "TestProxy ''p'' (network world_two_of_four 2) 250000 5000000000
      = (\<lparr>Name = ''p'', Bandwidth = fdiv (float64_of_int64 250000) (Seconds (1000000000 - 100000000)),
          TTFB = 100000000, CountryCode = [], IP = []\<rparr>, 250000)"
    by (rule TestProxy_good_response [where st = 200 and ce = False])
       (simp_all add: world_two_of_four_def network_two_of_four_def word_sless_alt)
  have c1: "TestProxy ''p'' (network world_two_of_four (Suc 0)) 250000 5000000000
      = (\<lparr>Name = ''p'', Bandwidth = Finite (- 1), TTFB = - 1, CountryCode = [], IP = []\<rparr>, 0)"
    by (rule TestProxy_GetError) (simp add: world_two_of_four_def network_two_of_four_def)
  have c3: "TestProxy ''p'' (network world_two_of_four 3) 250000 5000000000
      = (\<lparr>Name = ''p'', Bandwidth = Finite (- 1), TTFB = - 1, CountryCode = [], IP = []\<rparr>, 0)"
    by (rule TestProxy_GetError) (simp add: world_two_of_four_def network_two_of_four_def)
  from ttfb_divided_by_concurrency [of 4 "''p''" world_two_of_four 1000000 5000000000 "[''a'', ''b'']"]
  show ?thesis
    by (simp add: Let_def pos u4 d c0 c1 c2 c3)
qed

text \<open>
  Claim C7. \<open>TestProxy\<close> reports a failed chunk (the \<open>Result\<close> with -1 for bandwidth and
  TTFB, and a byte count of 0) exactly when the request fails with an error, the status
  code minus 200 exceeds 100, or no byte of the body is read. Exactly in these cases the
  worker leaves the shared byte total unchanged, and it leaves the shared TTFB sum
  unchanged too. In every other case the bytes read are added to the byte total and the
  chunk's TTFB to the TTFB sum, whether or not the copy ended with an error. For a
  status code between 0 and 999 the status test is \<open>status > 300\<close>.
\<close>

theorem failed_chunk_iff:
  "(let failure = (network w i sz t = GetError
                   \<or> (\<exists>st ttfb wr ce fin. network w i sz t = GetResponse st ttfb wr ce fin
                         \<and> (100 <s st - 200 \<or> wr = 0)));
        failed = (\<lparr>Name = name, Bandwidth = Finite (- 1), TTFB = - 1, CountryCode = [], IP = []\<rparr>, 0)
    in (TestProxy name (network w i) sz t = failed \<longleftrightarrow> failure)
       \<and> (downloaded (goroutine name w sz t i s) = downloaded s \<longleftrightarrow> failure)
       \<and> (failure \<longrightarrow> totalTTFB (goroutine name w sz t i s) = totalTTFB s)
       \<and> (\<forall>st ttfb wr ce fin.
             network w i sz t = GetResponse st ttfb wr ce fin \<and> \<not> 100 <s st - 200 \<and> wr \<noteq> 0 \<longrightarrow>
               snd (TestProxy name (network w i) sz t) = wr
               \<and> downloaded (goroutine name w sz t i s) = downloaded s + wr
               \<and> totalTTFB (goroutine name w sz t i s) = totalTTFB s + ttfb)
       \<and> (\<forall>st :: go_int. 0 \<le> sint st \<and> sint st \<le> 999 \<longrightarrow>
             (100 <s st - 200 \<longleftrightarrow> 300 < sint st)))"
proof -
  let ?failure = "network w i sz t = GetError
                   \<or> (\<exists>st ttfb wr ce fin. network w i sz t = GetResponse st ttfb wr ce fin
                         \<and> (100 <s st - 200 \<or> wr = 0))"
  let ?failed = "(\<lparr>Name = name, Bandwidth = Finite (- 1), TTFB = - 1, CountryCode = [], IP = []\<rparr>,
                  0 :: int64)"
  have zero: "snd (TestProxy name (network w i) sz t) = 0 \<longleftrightarrow> ?failure"
    by (rule TestProxy_zero_iff)
  have 1: "TestProxy name (network w i) sz t = ?failed \<longleftrightarrow> ?failure"
  proof
    assume "TestProxy name (network w i) sz t = ?failed"
    then have "snd (TestProxy name (network w i) sz t) = 0" by simp
    with zero show ?failure by blast
  next
    assume ?failure
    then show "TestProxy name (network w i) sz t = ?failed"
      using TestProxy_GetError [of "network w i" sz t name]
        TestProxy_bad_response [of "network w i" sz t _ _ _ _ _ name]
      by blast
  qed
  have 2: "downloaded (goroutine name w sz t i s) = downloaded s \<longleftrightarrow> ?failure"
    using zero by (simp add: goroutine_downloaded)
  have 3: "?failure \<longrightarrow> totalTTFB (goroutine name w sz t i s) = totalTTFB s"
    using zero by (simp add: goroutine_totalTTFB)
  have 4: "\<forall>st ttfb wr ce fin.
             network w i sz t = GetResponse st ttfb wr ce fin \<and> \<not> 100 <s st - 200 \<and> wr \<noteq> 0 \<longrightarrow>
               snd (TestProxy name (network w i) sz t) = wr
               \<and> downloaded (goroutine name w sz t i s) = downloaded s + wr
               \<and> totalTTFB (goroutine name w sz t i s) = totalTTFB s + ttfb"
  proof (intro allI impI)
    fix st ttfb wr ce fin
    assume h: "network w i sz t = GetResponse st ttfb wr ce fin \<and> \<not> 100 <s st - 200 \<and> wr \<noteq> 0"
    then have a: "network w i sz t = GetResponse st ttfb wr ce fin"
      and b: "\<not> 100 <s st - 200" and c: "wr \<noteq> 0"
      by simp_all
    have "TestProxy name (network w i) sz t =
       (\<lparr>Name = name, Bandwidth = fdiv (float64_of_int64 wr) (Seconds (fin - ttfb)),
         TTFB = ttfb, CountryCode = [], IP = []\<rparr>, wr)"
      using a b c by (rule TestProxy_good_response)
    with h show "snd (TestProxy name (network w i) sz t) = wr
               \<and> downloaded (goroutine name w sz t i s) = downloaded s + wr
               \<and> totalTTFB (goroutine name w sz t i s) = totalTTFB s + ttfb"
      by (simp add: goroutine_downloaded goroutine_totalTTFB)
  qed
  have 5: "\<forall>st :: go_int. 0 \<le> sint st \<and> sint st \<le> 999 \<longrightarrow>
             (100 <s st - 200 \<longleftrightarrow> 300 < sint st)"
  proof (intro allI impI)
    fix st :: go_int
    assume r: "0 \<le> sint st \<and> sint st \<le> 999"
    have "sint (st - 200) = signed_take_bit 63 (sint st - 200)"
      by (simp add: sint_word_ariths)
    also have "\<dots> = sint st - 200"
      using r by (intro signed_take_bit_int_eq_self) simp_all
    finally show "100 <s st - 200 \<longleftrightarrow> 300 < sint st"
      by (auto simp: word_sless_alt)
  qed
  show ?thesis
    unfolding Let_def using 1 2 3 4 5 by blast
qed

theorem failed_chunk_iff_witness:
  "fanout ''p'' world_mixed 12 5000000000 [0, 1, 2, 3, 4, 5] =
     \<lparr>downloaded = 19, totalTTFB = 50000000,
      requests = [(0, 12), (1, 12), (2, 12), (3, 12), (4, 12), (5, 12)]\<rparr>"
proof -
  have n: "network world_mixed = network_mixed" by (simp add: world_mixed_def)
  define s0 :: shared where "s0 = \<lparr>downloaded = 0, totalTTFB = 0, requests = []\<rparr>"
  define s1 where "s1 = goroutine ''p'' world_mixed 12 5000000000 0 s0"
  define s2 where "s2 = goroutine ''p'' world_mixed 12 5000000000 1 s1"
  define s3 where "s3 = goroutine ''p'' world_mixed 12 5000000000 2 s2"
  define s4 where "s4 = goroutine ''p'' world_mixed 12 5000000000 3 s3"
  define s5 where "s5 = goroutine ''p'' world_mixed 12 5000000000 4 s4"
  define s6 where "s6 = goroutine ''p'' world_mixed 12 5000000000 5 s5"
  note f = failed_chunk_iff [of world_mixed _ 12 5000000000 "''p''", unfolded Let_def n]
  have d1: "downloaded s1 = downloaded s0" "totalTTFB s1 = totalTTFB s0"
    using f [of 0 s0] unfolding s1_def by (simp_all add: network_mixed_def ex_bool_eq)
  have d2: "downloaded s2 = downloaded s1" "totalTTFB s2 = totalTTFB s1"
    using f [of 1 s1] unfolding s2_def by (simp_all add: network_mixed_def word_sless_alt ex_bool_eq)
  have d3: "downloaded s3 = downloaded s2" "totalTTFB s3 = totalTTFB s2"
    using f [of 2 s2] unfolding s3_def by (simp_all add: network_mixed_def word_sless_alt ex_bool_eq)
  have d4: "downloaded s4 = downloaded s3" "totalTTFB s4 = totalTTFB s3"
    using f [of 3 s3] unfolding s4_def by (simp_all add: network_mixed_def word_sless_alt ex_bool_eq)
  have d5: "downloaded s5 = downloaded s4 + 7" "totalTTFB s5 = totalTTFB s4 + 30000000"
    using f [of 4 s4] unfolding s5_def by (simp_all add: network_mixed_def word_sless_alt ex_bool_eq)
  have d6: "downloaded s6 = downloaded s5 + 12" "totalTTFB s6 = totalTTFB s5 + 20000000"
    using f [of 5 s5] unfolding s6_def by (simp_all add: network_mixed_def word_sless_alt ex_bool_eq)
  have "downloaded s6 = 19" "totalTTFB s6 = 50000000"
    by (simp_all add: d1 d2 d3 d4 d5 d6 s0_def)
  moreover have "requests s6 = [(0, 12), (1, 12), (2, 12), (3, 12), (4, 12), (5, 12)]"
    by (simp add: s6_def s5_def s4_def s3_def s2_def s1_def s0_def goroutine_requests)
  moreover have "fanout ''p'' world_mixed 12 5000000000 [0, 1, 2, 3, 4, 5] = s6"
    by (simp add: fanout_def s6_def s5_def s4_def s3_def s2_def s1_def s0_def)
  ultimately show ?thesis
    by (cases s6) simp
qed

section \<open>Lemmas about the aggregated result\<close>

lemma try_api_ip_nonempty:
  assumes "try_api a url = Some (cc, ip)"
  shows "ip \<noteq> []"
proof -
  from assms have "\<exists>r. try_api a url = Some r" by blast
  then obtain obj ip' where a: "a = Response 200 (Decoded obj)"
    and ip': "obj ''ip'' = Some (JString ip')" "ip' \<noteq> []"
    unfolding try_api_Some_iff by blast
  from try_api_accepts_spec [of obj ip' url, OF ip'] assms a have "ip = ip'" by simp
  with ip' show ?thesis by simp
qed

lemma queryIPLocation_ip_nonempty:
  assumes "queryIPLocation rnd respond tokens = ((cc, ip, None), tried)"
  shows "ip \<noteq> []"
proof -
  from assms have "range_apiURLs respond 0 (build_apiURLs rnd tokens) = ((cc, ip, None), tried)"
    by (simp add: queryIPLocation_def)
  from range_apiURLs_no_error [OF this] obtain j
    where "try_api (respond (0 + j) (build_apiURLs rnd tokens ! j)) (build_apiURLs rnd tokens ! j)
             = Some (cc, ip)"
    by blast
  then show ?thesis by (rule try_api_ip_nonempty)
qed

lemma TestProxyConcurrent_CountryCode:
  "CountryCode (fst (TestProxyConcurrent name w ds t cc tokens)) =
     (if fgt (Bandwidth (fst (TestProxyConcurrent name w ds t cc tokens))) epsilon
      then (case fst (queryIPLocation (random w) (geo_respond w) tokens) of
              (country_code, ip, None) \<Rightarrow> if country_code \<noteq> [] then country_code else ''NIL''
            | (country_code, ip, Some err) \<Rightarrow> ''NIL'')
      else ''NIL'')"
  by (simp add: TestProxyConcurrent_def Let_def split: prod.splits option.splits)

lemma TestProxyConcurrent_IP:
  "IP (fst (TestProxyConcurrent name w ds t cc tokens)) =
     (if fgt (Bandwidth (fst (TestProxyConcurrent name w ds t cc tokens))) epsilon
      then (case fst (queryIPLocation (random w) (geo_respond w) tokens) of
              (country_code, ip, None) \<Rightarrow> ip
            | (country_code, ip, Some err) \<Rightarrow> ''NIL'')
      else ''NIL'')"
  by (simp add: TestProxyConcurrent_def Let_def split: prod.splits option.splits)

lemma TestProxy_zero_failed:
  assumes "snd (TestProxy name proxy sz t) = 0"
  shows "TestProxy name proxy sz t =
           (\<lparr>Name = name, Bandwidth = Finite (- 1), TTFB = - 1, CountryCode = [], IP = []\<rparr>, 0)"
  using assms TestProxy_GetError [of proxy sz t name]
    TestProxy_bad_response [of proxy sz t _ _ _ _ _ name]
  unfolding TestProxy_zero_iff by blast

lemma fanout_all_failed:
  assumes "\<forall>i \<in> set order. snd (TestProxy name (network w i) sz t) = 0"
  shows "downloaded (fanout name w sz t order) = 0" and "totalTTFB (fanout name w sz t order) = 0"
proof -
  have "sum_list (map (\<lambda>i. snd (TestProxy name (network w i) sz t)) order) = 0"
    using assms by (induction order) simp_all
  then show "downloaded (fanout name w sz t order) = 0"
    by (simp only: fanout_downloaded)
  have "filter (\<lambda>i. snd (TestProxy name (network w i) sz t) \<noteq> 0) order = []"
    using assms by (simp add: filter_empty_conv)
  then show "totalTTFB (fanout name w sz t order) = 0"
    by (simp add: fanout_totalTTFB)
qed

lemma go_div_zero: "go_div 0 n = 0"
  by (simp add: go_div_def)

lemma all_failed_result:
  assumes "\<forall>i \<in> set [0 ..< nat (sint (clamped cc))].
             snd (TestProxy name (network w i) (go_div ds (clamped cc)) t) = 0"
  shows "TTFB (fst (TestProxyConcurrent name w ds t cc tokens)) = 0"
    and "Bandwidth (fst (TestProxyConcurrent name w ds t cc tokens))
           = (if wall_clock w = 0 then NaN else Finite 0)"
  using fanout_all_failed [OF assms]
  by (simp_all only: TestProxyConcurrent_TTFB TestProxyConcurrent_Bandwidth go_div_zero
        bandwidth_of_nothing)

section \<open>The claims about the aggregated result\<close>

text \<open>
  Claim C9. In every \<open>Result\<close> of \<open>TestProxyConcurrent\<close> the country code and the IP are
  non-empty strings. Both are \<open>NIL\<close> when \<open>queryIPLocation\<close> is not called or returns an
  error. When it returns without error, the IP becomes the resolved address, which is
  not empty, and the country code becomes the resolved one if that is not empty and
  stays \<open>NIL\<close> otherwise.
\<close>

theorem identity_never_empty:
  "(let run = TestProxyConcurrent name w downloadSize timeout concurrentCount tokens;
        result = fst run;
        resolved = fst (queryIPLocation (random w) (geo_respond w) tokens)
    in CountryCode result \<noteq> [] \<and> IP result \<noteq> []
       \<and> (geo_calls (snd run) = [] \<longrightarrow> CountryCode result = ''NIL'' \<and> IP result = ''NIL'')
       \<and> (\<forall>country_code ip err. geo_calls (snd run) \<noteq> [] \<and> resolved = (country_code, ip, Some err) \<longrightarrow>
             CountryCode result = ''NIL'' \<and> IP result = ''NIL'')
       \<and> (\<forall>country_code ip. geo_calls (snd run) \<noteq> [] \<and> resolved = (country_code, ip, None) \<longrightarrow>
             ip \<noteq> [] \<and> IP result = ip
             \<and> CountryCode result = (if country_code \<noteq> [] then country_code else ''NIL'')))"
proof -
  let ?run = "TestProxyConcurrent name w downloadSize timeout concurrentCount tokens"
  let ?resolved = "fst (queryIPLocation (random w) (geo_respond w) tokens)"
  note cc = TestProxyConcurrent_CountryCode [of name w downloadSize timeout concurrentCount tokens]
  note ip = TestProxyConcurrent_IP [of name w downloadSize timeout concurrentCount tokens]
  note calls = TestProxyConcurrent_geo_calls [of name w downloadSize timeout concurrentCount tokens]
  have nonempty: "ip \<noteq> []" if "?resolved = (country_code, ip, None)" for country_code ip
  proof -
    from that have "queryIPLocation (random w) (geo_respond w) tokens
        = ((country_code, ip, None), snd (queryIPLocation (random w) (geo_respond w) tokens))"
      by (metis prod.collapse)
    then show ?thesis by (rule queryIPLocation_ip_nonempty)
  qed
  have 1: "CountryCode (fst ?run) \<noteq> []"
    unfolding cc by (simp split: prod.splits option.splits)
  have 2: "IP (fst ?run) \<noteq> []"
    unfolding ip using nonempty by (simp split: prod.splits option.splits)
  have 3: "geo_calls (snd ?run) = [] \<longrightarrow> CountryCode (fst ?run) = ''NIL'' \<and> IP (fst ?run) = ''NIL''"
  proof
    assume "geo_calls (snd ?run) = []"
    then have "\<not> fgt (Bandwidth (fst ?run)) epsilon"
      unfolding calls by (simp split: if_splits)
    then show "CountryCode (fst ?run) = ''NIL'' \<and> IP (fst ?run) = ''NIL''"
      using cc ip by simp
  qed
  have 4: "\<forall>country_code ip err.
        geo_calls (snd ?run) \<noteq> [] \<and> ?resolved = (country_code, ip, Some err) \<longrightarrow>
          CountryCode (fst ?run) = ''NIL'' \<and> IP (fst ?run) = ''NIL''"
  proof (intro allI impI)
    fix country_code ip err
    assume h: "geo_calls (snd ?run) \<noteq> [] \<and> ?resolved = (country_code, ip, Some err)"
    with cc ip show "CountryCode (fst ?run) = ''NIL'' \<and> IP (fst ?run) = ''NIL''"
      by simp
  qed
  have 5: "\<forall>country_code ip. geo_calls (snd ?run) \<noteq> [] \<and> ?resolved = (country_code, ip, None) \<longrightarrow>
             ip \<noteq> [] \<and> IP (fst ?run) = ip
             \<and> CountryCode (fst ?run) = (if country_code \<noteq> [] then country_code else ''NIL'')"
  proof (intro allI impI)
    fix country_code ip
    assume h: "geo_calls (snd ?run) \<noteq> [] \<and> ?resolved = (country_code, ip, None)"
    then have "fgt (Bandwidth (fst ?run)) epsilon"
      unfolding calls by (simp split: if_splits)
    with h cc ip nonempty [of country_code ip]
    show "ip \<noteq> [] \<and> IP (fst ?run) = ip
             \<and> CountryCode (fst ?run) = (if country_code \<noteq> [] then country_code else ''NIL'')"
      by simp
  qed
  show ?thesis
    unfolding Let_def using 1 2 3 4 5 by blast
qed

lemma world_ip_only_run:
  "fgt (Bandwidth (fst (TestProxyConcurrent ''p'' world_ip_only 100 5000000000 1 []))) epsilon"
proof -
  have c: "clamped (1 :: go_int) = 1" by (simp add: word_sle_eq)
  have d: "go_div 100 1 = 100" by (simp add: go_div_def)
  have t: "TestProxy ''p'' (network world_ip_only 0) 100 5000000000
      = (\<lparr>Name = ''p'', Bandwidth = fdiv (float64_of_int64 100) (Seconds (1000000000 - 100000000)),
          TTFB = 100000000, CountryCode = [], IP = []\<rparr>, 100)"
    by (rule TestProxy_good_response [where st = 200 and ce = False])
       (simp_all add: world_ip_only_def word_sless_alt)
  have "downloaded (fanout ''p'' world_ip_only 100 5000000000 [0 ..< nat (sint (1 :: go_int))]) = 100"
    by (simp add: fanout_downloaded t)
  then have "Bandwidth (fst (TestProxyConcurrent ''p'' world_ip_only 100 5000000000 1 []))
      = fdiv (float64_of_int64 100) (Seconds 1000000000)"
    by (simp only: TestProxyConcurrent_Bandwidth c d) (simp add: world_ip_only_def)
  moreover have "fgt (fdiv (float64_of_int64 100) (Seconds 1000000000)) epsilon"
    by (rule bandwidth_called) simp_all
  ultimately show ?thesis by simp
qed

lemma world_ip_only_resolved:
  "fst (queryIPLocation (random world_ip_only) (geo_respond world_ip_only) [])
     = ([], ''198.51.100.4'', None)"
  by (simp add: queryIPLocation_def build_apiURLs_def Shuffle_def world_ip_only_def
      try_api_def respond_ip_only_def checkCountry_def)

theorem identity_never_empty_witness:
  "CountryCode (fst (TestProxyConcurrent ''p'' world_ip_only 100 5000000000 1 [])) = ''NIL''
   \<and> IP (fst (TestProxyConcurrent ''p'' world_ip_only 100 5000000000 1 [])) = ''198.51.100.4''"
proof -
  have calls: "geo_calls (snd (TestProxyConcurrent ''p'' world_ip_only 100 5000000000 1 [])) \<noteq> []"
    using world_ip_only_run by (simp add: TestProxyConcurrent_geo_calls)
  from identity_never_empty [of "''p''" world_ip_only 100 5000000000 1 "[]"]
  have "\<forall>country_code ip.
      geo_calls (snd (TestProxyConcurrent ''p'' world_ip_only 100 5000000000 1 [])) \<noteq> []
      \<and> fst (queryIPLocation (random world_ip_only) (geo_respond world_ip_only) [])
          = (country_code, ip, None) \<longrightarrow>
      ip \<noteq> [] \<and> IP (fst (TestProxyConcurrent ''p'' world_ip_only 100 5000000000 1 [])) = ip
      \<and> CountryCode (fst (TestProxyConcurrent ''p'' world_ip_only 100 5000000000 1 []))
          = (if country_code \<noteq> [] then country_code else ''NIL'')"
    unfolding Let_def by blast
  with calls world_ip_only_resolved show ?thesis
    by simp
qed

text \<open>
  Claim C1, as the code has it. When every chunk fails, the returned \<open>Result\<close> has a TTFB
  of 0 and a bandwidth of 0 (not-a-number when the measured time of the run is 0), not
  -1: the value -1 stands in the \<open>Result\<close> of each failed \<open>TestProxy\<close> call, which
  the aggregation does not read.
\<close>

theorem all_chunks_failed_result:
  assumes "\<forall>i \<in> set [0 ..< nat (sint (clamped concurrentCount))].
             snd (TestProxy name (network w i) (go_div downloadSize (clamped concurrentCount)) timeout) = 0"
  shows "TTFB (fst (TestProxyConcurrent name w downloadSize timeout concurrentCount tokens)) = 0
    \<and> Bandwidth (fst (TestProxyConcurrent name w downloadSize timeout concurrentCount tokens))
        = (if wall_clock w = 0 then NaN else Finite 0)
    \<and> list_all (\<lambda>i. fst (TestProxy name (network w i) (go_div downloadSize (clamped concurrentCount)) timeout)
                      = \<lparr>Name = name, Bandwidth = Finite (- 1), TTFB = - 1, CountryCode = [], IP = []\<rparr>)
         [0 ..< nat (sint (clamped concurrentCount))]"
proof (intro conjI)
  show "TTFB (fst (TestProxyConcurrent name w downloadSize timeout concurrentCount tokens)) = 0"
    using assms by (rule all_failed_result)
  show "Bandwidth (fst (TestProxyConcurrent name w downloadSize timeout concurrentCount tokens))
        = (if wall_clock w = 0 then NaN else Finite 0)"
    using assms by (rule all_failed_result)
  show "list_all (\<lambda>i. fst (TestProxy name (network w i) (go_div downloadSize (clamped concurrentCount)) timeout)
                      = \<lparr>Name = name, Bandwidth = Finite (- 1), TTFB = - 1, CountryCode = [], IP = []\<rparr>)
         [0 ..< nat (sint (clamped concurrentCount))]"
    unfolding list_all_iff
  proof
    fix i assume "i \<in> set [0 ..< nat (sint (clamped concurrentCount))]"
    with assms have "snd (TestProxy name (network w i) (go_div downloadSize (clamped concurrentCount)) timeout) = 0"
      by blast
    from TestProxy_zero_failed [OF this]
    show "fst (TestProxy name (network w i) (go_div downloadSize (clamped concurrentCount)) timeout)
            = \<lparr>Name = name, Bandwidth = Finite (- 1), TTFB = - 1, CountryCode = [], IP = []\<rparr>"
      by simp
  qed
qed

lemma world_mixed_first_four_fail:
  "\<forall>i \<in> set [0 ..< nat (sint (clamped (4 :: go_int)))].
     snd (TestProxy ''p'' (network world_mixed i) (go_div 100 (clamped 4)) 5000000000) = 0"
proof -
  have u: "[0 ..< nat (sint (clamped (4 :: go_int)))] = [0, 1, 2, 3]"
    by (simp add: word_sle_eq upt_rec)
  show ?thesis
    unfolding u TestProxy_zero_iff
    by (simp add: world_mixed_def network_mixed_def word_sless_alt ex_bool_eq)
qed

theorem all_chunks_failed_result_witness:
  "TTFB (fst (TestProxyConcurrent ''p'' world_mixed 100 5000000000 4 [])) = 0
   \<and> Bandwidth (fst (TestProxyConcurrent ''p'' world_mixed 100 5000000000 4 [])) = Finite 0"
  using all_chunks_failed_result [OF world_mixed_first_four_fail, of "[]"]
  by (simp add: world_mixed_def)

theorem all_chunks_failed_counterexample:
  "list_all (\<lambda>i. snd (TestProxy ''p'' (network world_mixed i) 25 5000000000) = 0) [0, 1, 2, 3]
   \<and> Bandwidth (fst (TestProxyConcurrent ''p'' world_mixed 100 5000000000 4 [])) \<noteq> Finite (- 1)
   \<and> TTFB (fst (TestProxyConcurrent ''p'' world_mixed 100 5000000000 4 [])) \<noteq> - 1"
proof -
  have d: "go_div 100 (clamped 4) = 25"
    by (simp add: go_div_def signed_divide_int_def word_sle_eq)
  have u: "[0 ..< nat (sint (clamped (4 :: go_int)))] = [0, 1, 2, 3]"
    by (simp add: word_sle_eq upt_rec)
  note fail = world_mixed_first_four_fail
  have "list_all (\<lambda>i. snd (TestProxy ''p'' (network world_mixed i) 25 5000000000) = 0) [0, 1, 2, 3]"
    using fail unfolding d u by (simp add: list_all_iff)
  moreover have "Bandwidth (fst (TestProxyConcurrent ''p'' world_mixed 100 5000000000 4 [])) = Finite 0"
    using all_failed_result(2) [OF fail, of "[]"] by (simp add: world_mixed_def)
  moreover have "TTFB (fst (TestProxyConcurrent ''p'' world_mixed 100 5000000000 4 [])) = 0"
    using all_failed_result(1) [OF fail, of "[]"] .
  ultimately show ?thesis by simp
qed







end
